theory Spec2Isabelle
  imports Complex_Main "HOL-Library.Sublist" "HOL-Library.AList"
begin

section \<open>JavaScript values\<close>

text \<open>
  BlockDoc is plain JavaScript: block data, metadata and articles are untyped objects, and the
  code tells \<open>undefined\<close>, falsy values, strings and arrays apart at run time. The embedding
  therefore works on a datatype of JavaScript values.

  \<^item> A string is a \<open>string\<close>: the UTF-8 bytes of the JavaScript string. Every character the
    code inspects is ASCII, and no byte of a multi-byte UTF-8 sequence is ASCII, so the
    operations below act on the bytes as the source acts on the UTF-16 code units.
  \<^item> A finite number is \<open>Dec neg s n\<close>, the triple of ECMAScript's \<open>Number::toString\<close>:
    with \<open>k\<close> the number of decimal digits of \<open>s\<close>, its value is \<open>s\<close> times ten to the power \<open>n - k\<close>, negated when \<open>neg\<close>, and
    \<open>s\<close> holds the shortest digits that read back as the same double. Zero is \<open>s = 0\<close>.
  \<^item> An object is the association list of its own enumerable properties in insertion order;
    its first binding of a key is the property. JavaScript enumerates integer-like keys
    first; that changes the order of enumeration only, which nothing below observes
    beyond the order of the list itself.
  \<^item> Functions, symbols, accessors and object identity are outside the model.
\<close>

datatype jsnum = NaN | PosInfinity | NegInfinity | Dec bool nat int

datatype jsval =
    JUndefined
  | JNull
  | JBool bool
  | JNum jsnum
  | JStr string
  | JArr "jsval list"
  | JObj "(string \<times> jsval) list"

type_synonym jsobj = "(string \<times> jsval) list"

text \<open>
  Every \<open>throw new Error(message)\<close> of the source is one constructor, named after the kind of
  failure and carrying the parts the message is built from; \<open>TypeError\<close> is the error the
  language itself raises (a property read on \<open>null\<close>, a call of something that is no function,
  a value with no string form), and \<open>HostError\<close> is an exception out of a collaborating
  library (marked, highlight.js, \<open>URL\<close>, \<open>Date\<close>).
\<close>

datatype error =
    MissingIdError
  | InvalidTypeError string
  | MissingRequiredFieldError string string
  | DuplicateIdError string
  | BlockNotFoundError string
  | InvalidPositionError jsnum
  | InvalidArticleStructureError
  | MissingArticleError
  | TypeError
  | HostError

definition try_bind :: "error + 'a \<Rightarrow> ('a \<Rightarrow> error + 'b) \<Rightarrow> error + 'b" where
  "try_bind m f = (case m of Inl e \<Rightarrow> Inl e | Inr x \<Rightarrow> f x)"

fun num_truthy :: "jsnum \<Rightarrow> bool" where
  "num_truthy NaN = False"
| "num_truthy PosInfinity = True"
| "num_truthy NegInfinity = True"
| "num_truthy (Dec neg s n) = (s \<noteq> 0)"

fun truthy :: "jsval \<Rightarrow> bool" where
  "truthy JUndefined = False"
| "truthy JNull = False"
| "truthy (JBool b) = b"
| "truthy (JNum x) = num_truthy x"
| "truthy (JStr s) = (s \<noteq> [])"
| "truthy (JArr xs) = True"
| "truthy (JObj kvs) = True"

fun nullish :: "jsval \<Rightarrow> bool" where
  "nullish JUndefined = True"
| "nullish JNull = True"
| "nullish v = False"

fun isArray :: "jsval \<Rightarrow> bool" where
  "isArray (JArr xs) = True"
| "isArray v = False"

text \<open>\<open>a || b\<close>\<close>

definition js_or :: "jsval \<Rightarrow> jsval \<Rightarrow> jsval" where
  "js_or a b = (if truthy a then a else b)"

text \<open>
  \<open>a === b\<close>. Numbers compare by value (\<open>NaN\<close> equals nothing, the two zeros are equal).
  Two objects or arrays are equal only when they are the same object; values here carry
  no identity, and two object operands are taken to be different objects, as they are when
  each comes from its own literal or from \<open>JSON.parse\<close>.
\<close>

fun num_strict_eq :: "jsnum \<Rightarrow> jsnum \<Rightarrow> bool" where
  "num_strict_eq NaN y = False"
| "num_strict_eq x NaN = False"
| "num_strict_eq (Dec a s n) (Dec b t m) = ((s = 0 \<and> t = 0) \<or> (a = b \<and> s = t \<and> n = m))"
| "num_strict_eq x y = (x = y)"

fun strict_eq :: "jsval \<Rightarrow> jsval \<Rightarrow> bool" where
  "strict_eq JUndefined JUndefined = True"
| "strict_eq JNull JNull = True"
| "strict_eq (JBool a) (JBool b) = (a = b)"
| "strict_eq (JNum x) (JNum y) = num_strict_eq x y"
| "strict_eq (JStr s) (JStr t) = (s = t)"
| "strict_eq a b = False"

text \<open>
  \<open>v[k]\<close> and \<open>v.k\<close> for a value that is neither \<open>null\<close> nor \<open>undefined\<close> (the callers check
  that first, where the source would raise) and a key that no prototype defines: an own
  property of an object, \<open>undefined\<close> otherwise.
\<close>

fun get_prop :: "jsval \<Rightarrow> string \<Rightarrow> jsval" where
  "get_prop (JObj kvs) k = (case map_of kvs k of Some v \<Rightarrow> v | None \<Rightarrow> JUndefined)"
| "get_prop v k = JUndefined"

subsection \<open>Strings of numbers and values\<close>

definition digit_char :: "nat \<Rightarrow> char" where
  "digit_char d = ''0123456789'' ! d"

fun digits :: "nat \<Rightarrow> string" where
  "digits n = (if n < 10 then [digit_char n] else digits (n div 10) @ [digit_char (n mod 10)])"

declare digits.simps [simp del]

definition int_to_string :: "int \<Rightarrow> string" where
  "int_to_string i = (if i < 0 then ''-'' @ digits (nat (- i)) else digits (nat i))"

text \<open>\<open>Number::toString\<close> (radix 10), step by step as in ECMA-262.\<close>

definition dec_to_string :: "nat \<Rightarrow> int \<Rightarrow> string" where
  "dec_to_string s n =
     (let ds = digits s; k = int (length ds) in
      if k \<le> n \<and> n \<le> 21 then ds @ replicate (nat (n - k)) (CHR ''0'')
      else if 0 < n \<and> n \<le> 21 then take (nat n) ds @ ''.'' @ drop (nat n) ds
      else if - 6 < n \<and> n \<le> 0 then ''0.'' @ replicate (nat (- n)) (CHR ''0'') @ ds
      else
        (let e = n - 1;
             ex = (if e < 0 then ''-'' else ''+'') @ digits (nat \<bar>e\<bar>) in
         if k = 1 then ds @ ''e'' @ ex
         else take 1 ds @ ''.'' @ drop 1 ds @ ''e'' @ ex))"

fun num_to_string :: "jsnum \<Rightarrow> string" where
  "num_to_string NaN = ''NaN''"
| "num_to_string PosInfinity = ''Infinity''"
| "num_to_string NegInfinity = ''-Infinity''"
| "num_to_string (Dec neg s n) =
     (if s = 0 then ''0'' else (if neg then ''-'' else '''') @ dec_to_string s n)"

text \<open>The number value of an integer.\<close>

definition js_int :: "int \<Rightarrow> jsval" where
  "js_int i = JNum (Dec (i < 0) (nat \<bar>i\<bar>) (int (length (digits (nat \<bar>i\<bar>)))))"

text \<open>The same integer as a number, where a number and not a value is expected.\<close>

definition int_num :: "int \<Rightarrow> jsnum" where
  "int_num i = Dec (i < 0) (nat \<bar>i\<bar>) (int (length (digits (nat \<bar>i\<bar>))))"

text \<open>
  The triple \<open>Dec neg s n\<close> is the number \<open>s\<close> times ten to the power \<open>n - k\<close>, negated when
  \<open>neg\<close> holds, \<open>k\<close> being the count of the digits of \<open>s\<close>: the quotient of \<open>numerator\<close> by
  \<open>denominator\<close>.
\<close>

fun numerator :: "jsnum \<Rightarrow> int" where
  "numerator (Dec neg s n) =
     (if neg then - 1 else 1) * int (s * 10 ^ nat (n - int (length (digits s))))"
| "numerator x = 0"

fun denominator :: "jsnum \<Rightarrow> int" where
  "denominator (Dec neg s n) = 10 ^ nat (int (length (digits s)) - n)"
| "denominator x = 1"

text \<open>
  \<open>x < m\<close> and \<open>x >= m\<close> for a number \<open>x\<close> and an integer \<open>m\<close>. Every comparison with \<open>NaN\<close> is
  false.
\<close>

fun num_lt :: "jsnum \<Rightarrow> int \<Rightarrow> bool" where
  "num_lt NaN m = False"
| "num_lt PosInfinity m = False"
| "num_lt NegInfinity m = True"
| "num_lt (Dec neg s n) m = (numerator (Dec neg s n) < m * denominator (Dec neg s n))"

fun num_ge :: "jsnum \<Rightarrow> int \<Rightarrow> bool" where
  "num_ge NaN m = False"
| "num_ge PosInfinity m = True"
| "num_ge NegInfinity m = False"
| "num_ge (Dec neg s n) m = (m * denominator (Dec neg s n) \<le> numerator (Dec neg s n))"

text \<open>
  The integer part of a finite number, truncated toward zero, read off the triple: the
  digits \<open>s\<close> shifted by \<open>n - k\<close> decimal places.
\<close>

fun integer_part :: "jsnum \<Rightarrow> int" where
  "integer_part (Dec neg s n) =
     (let k = int (length (digits s)) in
      (if neg then - 1 else 1) * int ((s * 10 ^ nat (n - k)) div 10 ^ nat (k - n)))"
| "integer_part x = 0"

text \<open>The first digit of \<open>s\<close>, the first significant digit of the number.\<close>

definition leading_digit :: "nat \<Rightarrow> nat" where
  "leading_digit s = s div 10 ^ (length (digits s) - 1)"

fun join :: "string \<Rightarrow> string list \<Rightarrow> string" where
  "join sep [] = []"
| "join sep [x] = x"
| "join sep (x # y # ys) = x @ sep @ join sep (y # ys)"

fun sequence :: "(error + 'a) list \<Rightarrow> error + 'a list" where
  "sequence [] = Inr []"
| "sequence (m # ms) =
     (case m of Inl e \<Rightarrow> Inl e
      | Inr x \<Rightarrow> (case sequence ms of Inl e \<Rightarrow> Inl e | Inr xs \<Rightarrow> Inr (x # xs)))"

text \<open>
  \<open>ToString(v)\<close>, what a template literal \<open>`${v}`\<close> and \<open>String(v)\<close> apply. An array joins
  the strings of its elements with a comma, \<open>null\<close> and \<open>undefined\<close> elements giving the
  empty string. A plain object is \<open>[object Object]\<close> through \<open>Object.prototype.toString\<close>,
  unless an own property \<open>toString\<close> hides that method: no value of the model is callable,
  \<open>valueOf\<close> gives back the object, and the conversion raises a \<open>TypeError\<close>.
\<close>

fun to_string :: "jsval \<Rightarrow> error + string" where
  "to_string JUndefined = Inr ''undefined''"
| "to_string JNull = Inr ''null''"
| "to_string (JBool b) = Inr (if b then ''true'' else ''false'')"
| "to_string (JNum x) = Inr (num_to_string x)"
| "to_string (JStr s) = Inr s"
| "to_string (JArr xs) =
     (case sequence (map (\<lambda>x. if nullish x then Inr [] else to_string x) xs) of
        Inl e \<Rightarrow> Inl e
      | Inr ss \<Rightarrow> Inr (join '','' ss))"
| "to_string (JObj kvs) =
     (if ''toString'' \<in> fst ` set kvs then Inl TypeError else Inr ''[object Object]'')"

section \<open>Sanitizer (src/utils/sanitize.js)\<close>

text \<open>The replacement function of \<open>sanitizeHtml\<close>: the \<open>map\<close> object applied to one character.\<close>

definition html_special :: "char \<Rightarrow> bool" where
  "html_special c =
     (c = CHR ''&'' \<or> c = CHR ''<'' \<or> c = CHR ''>'' \<or> c = CHR 0x22 \<or> c = CHR 0x27)"

definition html_entity :: "char \<Rightarrow> string" where
  "html_entity c =
     (if c = CHR ''&'' then ''&amp;''
      else if c = CHR ''<'' then ''&lt;''
      else if c = CHR ''>'' then ''&gt;''
      else if c = CHR 0x22 then ''&quot;''
      else if c = CHR 0x27 then ''&#039;''
      else [c])"

text \<open>\<open>s.replace(/[&<>"']/g, m => map[m])\<close>: one pass, left to right, over the characters.\<close>

definition replace_specials :: "string \<Rightarrow> string" where
  "replace_specials s = concat (map html_entity s)"

definition sanitizeHtml :: "jsval \<Rightarrow> error + string" where
  "sanitizeHtml html =
     (if \<not> truthy html then Inr ''''
      else try_bind (to_string html) (\<lambda>s. Inr (replace_specials s)))"

text \<open>
  The regular expression \<open>/^https?:\/\//i\<close>: the letters match in either case, the \<open>s\<close> is
  optional, the rest is literal.
\<close>

definition ci :: "char \<Rightarrow> char \<Rightarrow> char \<Rightarrow> bool" where
  "ci lo up c = (c = lo \<or> c = up)"

fun match_http :: "string \<Rightarrow> bool" where
  "match_http (h # t # t' # p # rest) =
     (ci (CHR ''h'') (CHR ''H'') h \<and> ci (CHR ''t'') (CHR ''T'') t \<and>
      ci (CHR ''t'') (CHR ''T'') t' \<and> ci (CHR ''p'') (CHR ''P'') p \<and>
      ((case rest of s # rest' \<Rightarrow> ci (CHR ''s'') (CHR ''S'') s \<and> prefix ''://'' rest'
        | [] \<Rightarrow> False)
       \<or> prefix ''://'' rest))"
| "match_http s = False"

text \<open>
  \<open>sanitizeUrl\<close>. A truthy value that is no string has no method \<open>match\<close>, and the call
  raises.
\<close>

fun sanitizeUrl :: "jsval \<Rightarrow> error + string" where
  "sanitizeUrl (JStr url) =
     (if url = [] then Inr ''''
      else if match_http url then Inr url
      else if prefix ''//'' url then Inr (''https:'' @ url)
      else if CHR '':'' \<notin> set url then Inr url
      else Inr '''')"
| "sanitizeUrl v = (if \<not> truthy v then Inr '''' else Inl TypeError)"

text \<open>
  The specification's reading of the first case of \<open>sanitizeUrl\<close>, "begins with
  \<open>http://\<close> or \<open>https://\<close> (case-insensitive)", written independently of the regular
  expression: the first characters of the input, letters lowered, are the pattern.
\<close>

definition lower_ascii :: "char \<Rightarrow> char" where
  "lower_ascii c =
     (case map_of (zip ''ABCDEFGHIJKLMNOPQRSTUVWXYZ'' ''abcdefghijklmnopqrstuvwxyz'') c of
        Some l \<Rightarrow> l
      | None \<Rightarrow> c)"

definition starts_with_ci :: "string \<Rightarrow> string \<Rightarrow> bool" where
  "starts_with_ci p s =
     (length p \<le> length s \<and> map lower_ascii (take (length p) s) = map lower_ascii p)"

section \<open>Block (src/core/block.js)\<close>

definition ALLOWED_TYPES :: "string list" where
  "ALLOWED_TYPES =
     [''text'', ''heading'', ''image'', ''code'', ''list'', ''quote'', ''embed'', ''divider'']"

definition TYPE_REQUIREMENTS :: "(string \<times> string list) list" where
  "TYPE_REQUIREMENTS =
     [(''heading'', [''level'']),
      (''code'', [''language'']),
      (''image'', [''url'', ''alt'']),
      (''list'', [''items'', ''listType''])]"

text \<open>\<open>ALLOWED_TYPES.includes(v)\<close>: the array holds strings, and only an equal string is found.\<close>

fun array_includes :: "string list \<Rightarrow> jsval \<Rightarrow> bool" where
  "array_includes xs (JStr s) = (s \<in> set xs)"
| "array_includes xs v = False"

text \<open>\<open>TYPE_REQUIREMENTS[type] || []\<close>, for a type that passed the check above.\<close>

definition requiredProps :: "string \<Rightarrow> string list" where
  "requiredProps ty = (case map_of TYPE_REQUIREMENTS ty of Some ps \<Rightarrow> ps | None \<Rightarrow> [])"

text \<open>
  A \<open>Block\<close> instance is the list of its own properties. Through its prototypes it also
  answers to the names below (the methods of \<open>Block.prototype\<close> and \<open>Object.prototype\<close>), so
  \<open>this[key] === undefined\<close> is false for them although they are no own property.
\<close>

definition INHERITED :: "string list" where
  "INHERITED =
     [''constructor'', ''update'', ''toJSON'',
      ''__defineGetter__'', ''__defineSetter__'', ''hasOwnProperty'', ''__lookupGetter__'',
      ''__lookupSetter__'', ''isPrototypeOf'', ''propertyIsEnumerable'', ''toString'',
      ''valueOf'', ''__proto__'', ''toLocaleString'']"

text \<open>\<open>this[key] === undefined\<close>\<close>

definition this_undefined :: "jsobj \<Rightarrow> string \<Rightarrow> bool" where
  "this_undefined this key =
     (case map_of this key of Some v \<Rightarrow> v = JUndefined | None \<Rightarrow> key \<notin> set INHERITED)"

text \<open>\<open>obj[key] = v\<close>: an own property keeps its place, a new one goes last.\<close>

definition assign :: "string \<Rightarrow> jsval \<Rightarrow> jsobj \<Rightarrow> jsobj" where
  "assign key v obj = AList.update key v obj"

text \<open>The loop over \<open>requiredProps\<close>; \<open>ty\<close> is \<open>this.type\<close>, for the message.\<close>

fun copy_required :: "jsval \<Rightarrow> string \<Rightarrow> string list \<Rightarrow> jsobj \<Rightarrow> error + jsobj" where
  "copy_required data ty [] this = Inr this"
| "copy_required data ty (p # ps) this =
     (if get_prop data p = JUndefined then Inl (MissingRequiredFieldError ty p)
      else copy_required data ty ps (assign p (get_prop data p) this))"

text \<open>\<open>Object.keys(v)\<close>, used on values that are objects.\<close>

fun keys :: "jsval \<Rightarrow> string list" where
  "keys (JObj kvs) = map fst kvs"
| "keys v = []"

text \<open>The loop \<open>Object.keys(data).forEach\<close> that copies the additional properties.\<close>

fun copy_additional :: "jsval \<Rightarrow> string list \<Rightarrow> jsobj \<Rightarrow> jsobj" where
  "copy_additional data [] this = this"
| "copy_additional data (key # ks) this =
     copy_additional data ks
       (if key \<notin> set [''id'', ''type'', ''content''] \<and> this_undefined this key
        then assign key (get_prop data key) this
        else this)"

text \<open>
  \<open>new Block(data)\<close>: the own properties of the instance, or the error raised. Reading
  \<open>data.id\<close> raises on \<open>null\<close> and \<open>undefined\<close>. Only an object has a truthy \<open>id\<close>, so past the
  first check \<open>data\<close> is an object. The message of the type error interpolates \<open>data.type\<close>,
  which can itself raise.
\<close>

definition Block :: "jsval \<Rightarrow> error + jsobj" where
  "Block data =
     (if nullish data then Inl TypeError
      else if \<not> truthy (get_prop data ''id'') then Inl MissingIdError
      else if \<not> truthy (get_prop data ''type'')
              \<or> \<not> array_includes ALLOWED_TYPES (get_prop data ''type'')
      then try_bind (to_string (get_prop data ''type'')) (\<lambda>t. Inl (InvalidTypeError t))
      else
        (case get_prop data ''type'' of
           JStr ty \<Rightarrow>
             try_bind
               (copy_required data ty (requiredProps ty)
                  [(''id'', get_prop data ''id''),
                   (''type'', get_prop data ''type''),
                   (''content'', js_or (get_prop data ''content'') (JStr ''''))])
               (\<lambda>this. Inr (copy_additional data (keys data) this))
         | _ \<Rightarrow> Inl TypeError))"

text \<open>\<open>block.toJSON()\<close>\<close>

definition toJSON :: "jsobj \<Rightarrow> jsobj" where
  "toJSON this =
     fold (\<lambda>key result.
             if key \<notin> set [''id'', ''type'', ''content'']
             then assign key (get_prop (JObj this) key) result
             else result)
       (map fst this)
       [(''id'', get_prop (JObj this) ''id''),
        (''type'', get_prop (JObj this) ''type''),
        (''content'', get_prop (JObj this) ''content'')]"

text \<open>The text of each error, as the source builds it.\<close>

fun message :: "error \<Rightarrow> string" where
  "message MissingIdError = ''Block ID is required''"
| "message (InvalidTypeError t) =
     ''Invalid block type: '' @ t @ ''. Allowed types are: '' @ join '', '' ALLOWED_TYPES"
| "message (MissingRequiredFieldError ty p) =
     ''Block of type '' @ [CHR 0x22] @ ty @ [CHR 0x22] @ '' requires property ''
       @ [CHR 0x22] @ p @ [CHR 0x22]"
| "message (DuplicateIdError i) =
     ''Block with ID '' @ [CHR 0x22] @ i @ [CHR 0x22] @ '' already exists''"
| "message (BlockNotFoundError i) =
     ''Block with ID '' @ [CHR 0x22] @ i @ [CHR 0x22] @ '' not found''"
| "message (InvalidPositionError p) = ''Invalid position: '' @ num_to_string p"
| "message InvalidArticleStructureError = ''Invalid article structure''"
| "message MissingArticleError = ''Invalid BlockDoc document: missing article property''"
| "message TypeError = ''TypeError''"
| "message HostError = ''Error''"

section \<open>Document (src/core/document.js)\<close>

text \<open>
  \<open>this.article\<close>. The block list holds what \<open>block.toJSON()\<close> returned: plain objects, stored
  by value.
\<close>

record Article =
  title :: jsval
  metadata :: jsval
  blocks :: "jsobj list"

record BlockDocDocument =
  article :: Article

definition set_blocks :: "BlockDocDocument \<Rightarrow> jsobj list \<Rightarrow> BlockDocDocument" where
  "set_blocks doc bs = doc\<lparr>article := (article doc)\<lparr>blocks := bs\<rparr>\<rparr>"

text \<open>\<open>Array.prototype.findIndex\<close>: the first index whose element satisfies \<open>P\<close>, or \<open>-1\<close>.\<close>

fun findIndex :: "('a \<Rightarrow> bool) \<Rightarrow> 'a list \<Rightarrow> int" where
  "findIndex P [] = - 1"
| "findIndex P (x # xs) =
     (if P x then 0 else (let i = findIndex P xs in if i = - 1 then - 1 else i + 1))"

text \<open>
  \<open>xs.splice(start, deleteCount, ...items)\<close> for an integer \<open>start\<close>: the array afterwards and
  the removed elements. A negative \<open>start\<close> counts from the end, and both \<open>start\<close> and
  \<open>deleteCount\<close> are clamped to the array.
\<close>

definition splice :: "'a list \<Rightarrow> int \<Rightarrow> nat \<Rightarrow> 'a list \<Rightarrow> 'a list \<times> 'a list" where
  "splice xs start deleteCount items =
     (let len = int (length xs);
          actualStart = (if start < 0 then max (len + start) 0 else min start len);
          actualDeleteCount = min (int deleteCount) (len - actualStart)
      in (take (nat actualStart) xs @ items @ drop (nat (actualStart + actualDeleteCount)) xs,
          take (nat actualDeleteCount) (drop (nat actualStart) xs)))"

text \<open>
  The \<open>start\<close> argument of \<open>splice\<close> given as a number: \<open>ToIntegerOrInfinity\<close> takes \<open>NaN\<close> to
  \<open>0\<close> and truncates a finite number. For the infinities \<open>splice\<close> starts at \<open>0\<close> and at the
  length of the array; the integers \<open>-len\<close> and \<open>len\<close> stand for them, which \<open>splice\<close> clamps to
  the same places.
\<close>

fun splice_start :: "jsnum \<Rightarrow> nat \<Rightarrow> int" where
  "splice_start NaN len = 0"
| "splice_start PosInfinity len = int len"
| "splice_start NegInfinity len = - int len"
| "splice_start (Dec neg s n) len = integer_part (Dec neg s n)"

text \<open>The callback of \<open>find\<close> and \<open>findIndex\<close>: \<open>(block) => block.id === id\<close>.\<close>

definition has_id :: "jsval \<Rightarrow> jsobj \<Rightarrow> bool" where
  "has_id bid block = strict_eq (get_prop (JObj block) ''id'') bid"

definition getBlock :: "BlockDocDocument \<Rightarrow> jsval \<Rightarrow> jsval" where
  "getBlock doc bid =
     (case find (has_id bid) (blocks (article doc)) of
        Some block \<Rightarrow> js_or (JObj block) JNull
      | None \<Rightarrow> js_or JUndefined JNull)"

text \<open>
  Every operation returns its result, or the error it raised, together with the document
  as the call leaves it.
\<close>

definition addBlock :: "BlockDocDocument \<Rightarrow> jsval \<Rightarrow> (error + jsobj) \<times> BlockDocDocument" where
  "addBlock doc blockData =
     (if nullish blockData then (Inl TypeError, doc)
      else if truthy (getBlock doc (get_prop blockData ''id''))
      then (try_bind (to_string (get_prop blockData ''id'')) (\<lambda>i. Inl (DuplicateIdError i)), doc)
      else
        (case Block blockData of
           Inl e \<Rightarrow> (Inl e, doc)
         | Inr block \<Rightarrow>
             (Inr block, set_blocks doc (blocks (article doc) @ [toJSON block]))))"

definition insertBlock ::
  "BlockDocDocument \<Rightarrow> jsval \<Rightarrow> jsnum \<Rightarrow> (error + jsobj) \<times> BlockDocDocument" where
  "insertBlock doc blockData position =
     (if nullish blockData then (Inl TypeError, doc)
      else if truthy (getBlock doc (get_prop blockData ''id''))
      then (try_bind (to_string (get_prop blockData ''id'')) (\<lambda>i. Inl (DuplicateIdError i)), doc)
      else
        (case Block blockData of
           Inl e \<Rightarrow> (Inl e, doc)
         | Inr block \<Rightarrow>
             (Inr block,
              set_blocks doc
                (fst (splice (blocks (article doc))
                        (splice_start position (length (blocks (article doc)))) 0
                        [toJSON block])))))"

text \<open>\<open>{ ...a, ...b }\<close> for two objects.\<close>

definition spread :: "jsobj \<Rightarrow> jsobj \<Rightarrow> jsobj" where
  "spread a b = fold (\<lambda>kv acc. assign (fst kv) (snd kv) acc) b a"

definition updateBlock ::
  "BlockDocDocument \<Rightarrow> jsval \<Rightarrow> jsobj \<Rightarrow> (error + jsobj) \<times> BlockDocDocument" where
  "updateBlock doc bid updates =
     (let index = findIndex (has_id bid) (blocks (article doc)) in
      if index = - 1
      then (try_bind (to_string bid) (\<lambda>i. Inl (BlockNotFoundError i)), doc)
      else
        (let currentBlock = blocks (article doc) ! nat index;
             updatedBlock = spread currentBlock updates
         in case Block (JObj updatedBlock) of
              Inl e \<Rightarrow> (Inl e, doc)
            | Inr block \<Rightarrow>
                (Inr (toJSON block),
                 set_blocks doc ((blocks (article doc))[nat index := toJSON block]))))"

definition removeBlock :: "BlockDocDocument \<Rightarrow> jsval \<Rightarrow> (error + bool) \<times> BlockDocDocument" where
  "removeBlock doc bid =
     (let index = findIndex (has_id bid) (blocks (article doc)) in
      if index = - 1 then (Inr False, doc)
      else (Inr True, set_blocks doc (fst (splice (blocks (article doc)) index 1 []))))"

text \<open>
  \<open>moveBlock\<close>. \<open>newPosition\<close> is a number: the test compares it as a number, and \<open>splice\<close>
  takes its integer part. The second \<open>splice\<close> inserts the removed block; \<open>index\<close> is a
  position of the array, so the first \<open>splice\<close> removed exactly one.
\<close>

definition moveBlock ::
  "BlockDocDocument \<Rightarrow> jsval \<Rightarrow> jsnum \<Rightarrow> (error + bool) \<times> BlockDocDocument" where
  "moveBlock doc bid newPosition =
     (let index = findIndex (has_id bid) (blocks (article doc)) in
      if index = - 1 then (Inr False, doc)
      else if num_lt newPosition 0 \<or> num_ge newPosition (int (length (blocks (article doc))))
      then (Inl (InvalidPositionError newPosition), doc)
      else
        (let removed = splice (blocks (article doc)) index 1 [];
             inserted = splice (fst removed)
                          (splice_start newPosition (length (fst removed))) 0 (snd removed)
         in (Inr True, set_blocks doc (fst inserted))))"

text \<open>A destructuring default: \<open>{ k = d }\<close> takes \<open>d\<close> for \<open>undefined\<close> only.\<close>

definition default_to :: "jsval \<Rightarrow> jsval \<Rightarrow> jsval" where
  "default_to v d = (if v = JUndefined then d else v)"

text \<open>\<open>blocks.forEach((block) => this.addBlock(block))\<close>, stopping at the first error.\<close>

fun addBlocks :: "BlockDocDocument \<Rightarrow> jsval list \<Rightarrow> error + BlockDocDocument" where
  "addBlocks doc [] = Inr doc"
| "addBlocks doc (block # rest) =
     (case addBlock doc block of
        (Inl e, doc') \<Rightarrow> Inl e
      | (Inr b, doc') \<Rightarrow> addBlocks doc' rest)"

fun elements :: "jsval \<Rightarrow> jsval list" where
  "elements (JArr xs) = xs"
| "elements v = []"

text \<open>\<open>new BlockDocDocument(options)\<close>; destructuring \<open>null\<close> or \<open>undefined\<close> raises.\<close>

definition new_BlockDocDocument :: "jsval \<Rightarrow> error + BlockDocDocument" where
  "new_BlockDocDocument options =
     (if nullish options then Inl TypeError
      else
        (let title' = get_prop options ''title'';
             metadata' = default_to (get_prop options ''metadata'') (JObj []);
             blocks' = default_to (get_prop options ''blocks'') (JArr []);
             this = \<lparr>article = \<lparr>title = title', metadata = metadata', blocks = []\<rparr>\<rparr>
         in if truthy blocks' \<and> isArray blocks' then addBlocks this (elements blocks')
            else Inr this))"

text \<open>The article as a value, as \<open>toJSON()\<close> and the renderers receive it.\<close>

definition article_value :: "Article \<Rightarrow> jsval" where
  "article_value a =
     JObj [(''title'', title a), (''metadata'', metadata a), (''blocks'', JArr (map JObj (blocks a)))]"

definition document_toJSON :: "BlockDocDocument \<Rightarrow> jsval" where
  "document_toJSON doc = JObj [(''article'', article_value (article doc))]"

text \<open>A document of three text blocks \<open>a\<close>, \<open>b\<close>, \<open>c\<close>, for the examples.\<close>

definition ex3 :: BlockDocDocument where
  "ex3 = \<lparr>article = \<lparr>title = JStr ''T'', metadata = JObj [],
      blocks = [[(''id'', JStr ''a''), (''type'', JStr ''text''), (''content'', JStr ''x'')],
                [(''id'', JStr ''b''), (''type'', JStr ''text''), (''content'', JStr ''y'')],
                [(''id'', JStr ''c''), (''type'', JStr ''text''), (''content'', JStr ''z'')]]\<rparr>\<rparr>"

section \<open>Renderers\<close>

subsection \<open>What the renderers take from the language and from libraries\<close>

definition nl :: string where
  "nl = [CHR 0x0A]"

definition dq :: string where
  "dq = [CHR 0x22]"

text \<open>
  \<open>xs.join(sep)\<close> on an array of values: \<open>null\<close> and \<open>undefined\<close> elements give the empty
  string, every other element its string.
\<close>

definition array_join :: "string \<Rightarrow> jsval list \<Rightarrow> error + string" where
  "array_join sep xs =
     try_bind (sequence (map (\<lambda>x. if nullish x then Inr [] else to_string x) xs))
       (\<lambda>ss. Inr (join sep ss))"

text \<open>
  \<open>parseInt(string)\<close> with no radix, as ECMA-262 defines it: leading white space is
  dropped, then a sign, then \<open>0x\<close> or \<open>0X\<close> selects radix 16; the longest run of digits is
  read, and no digit at all is \<open>NaN\<close> (\<open>None\<close>). The white space is the set
  \<open>StrWhiteSpaceChar\<close>, in UTF-8.
\<close>

definition white_space :: "string list" where
  "white_space =
     [[CHR 0x09], [CHR 0x0A], [CHR 0x0B], [CHR 0x0C], [CHR 0x0D], [CHR 0x20],
      [CHR 0xC2, CHR 0xA0], [CHR 0xE1, CHR 0x9A, CHR 0x80],
      [CHR 0xE2, CHR 0x80, CHR 0x80], [CHR 0xE2, CHR 0x80, CHR 0x81],
      [CHR 0xE2, CHR 0x80, CHR 0x82], [CHR 0xE2, CHR 0x80, CHR 0x83],
      [CHR 0xE2, CHR 0x80, CHR 0x84], [CHR 0xE2, CHR 0x80, CHR 0x85],
      [CHR 0xE2, CHR 0x80, CHR 0x86], [CHR 0xE2, CHR 0x80, CHR 0x87],
      [CHR 0xE2, CHR 0x80, CHR 0x88], [CHR 0xE2, CHR 0x80, CHR 0x89],
      [CHR 0xE2, CHR 0x80, CHR 0x8A], [CHR 0xE2, CHR 0x80, CHR 0xA8],
      [CHR 0xE2, CHR 0x80, CHR 0xA9], [CHR 0xE2, CHR 0x80, CHR 0xAF],
      [CHR 0xE2, CHR 0x81, CHR 0x9F], [CHR 0xE3, CHR 0x80, CHR 0x80],
      [CHR 0xEF, CHR 0xBB, CHR 0xBF]]"

fun trim_start :: "string \<Rightarrow> string" where
  "trim_start [] = []"
| "trim_start (c # cs) =
     (case find (\<lambda>w. prefix w (c # cs)) white_space of
        None \<Rightarrow> c # cs
      | Some w \<Rightarrow> trim_start (drop (length w - 1) cs))"

definition digit_value :: "char \<Rightarrow> nat option" where
  "digit_value c =
     map_of
       [(CHR ''0'', 0), (CHR ''1'', 1), (CHR ''2'', 2), (CHR ''3'', 3), (CHR ''4'', 4),
        (CHR ''5'', 5), (CHR ''6'', 6), (CHR ''7'', 7), (CHR ''8'', 8), (CHR ''9'', 9),
        (CHR ''a'', 10), (CHR ''b'', 11), (CHR ''c'', 12), (CHR ''d'', 13), (CHR ''e'', 14),
        (CHR ''f'', 15), (CHR ''A'', 10), (CHR ''B'', 11), (CHR ''C'', 12), (CHR ''D'', 13),
        (CHR ''E'', 14), (CHR ''F'', 15)] c"

definition is_digit :: "nat \<Rightarrow> char \<Rightarrow> bool" where
  "is_digit radix c = (case digit_value c of Some d \<Rightarrow> d < radix | None \<Rightarrow> False)"

definition digits_value :: "nat \<Rightarrow> string \<Rightarrow> nat" where
  "digits_value radix z =
     foldl (\<lambda>acc c. acc * radix + (case digit_value c of Some d \<Rightarrow> d | None \<Rightarrow> 0)) 0 z"

definition parseInt :: "string \<Rightarrow> int option" where
  "parseInt inputString =
     (let s = trim_start inputString;
          sign = (if prefix ''-'' s then - 1 else 1);
          s1 = (if prefix ''+'' s \<or> prefix ''-'' s then drop 1 s else s);
          hex = (prefix ''0x'' s1 \<or> prefix ''0X'' s1);
          radix = (if hex then 16 else 10);
          s2 = (if hex then drop 2 s1 else s1);
          z = takeWhile (is_digit radix) s2
      in if z = [] then None else Some (sign * int (digits_value radix z)))"

text \<open>
  The libraries the HTML renderer calls, and \<open>Date\<close>, are parameters of the model. Each
  takes the argument the source passes and gives the string the source goes on with, or
  \<open>None\<close> when the call raises.
  \<^item> \<open>marked_parse v\<close> is \<open>marked.parse(v)\<close>;
  \<^item> \<open>hljs_getLanguage v\<close> is whether \<open>hljs.getLanguage(v)\<close> is truthy;
  \<^item> \<open>hljs_highlight code language\<close> is \<open>hljs.highlight(code, { language }).value\<close>;
  \<^item> \<open>hljs_highlightAuto code\<close> is \<open>hljs.highlightAuto(code).value\<close>;
  \<^item> \<open>url_parse v\<close> is \<open>new URL(v)\<close>, as its \<open>hostname\<close>, \<open>pathname\<close> and \<open>search\<close>;
  \<^item> \<open>search_get search name\<close> is \<open>new URLSearchParams(search).get(name)\<close>, \<open>None\<close> for \<open>null\<close>;
  \<^item> \<open>date_toDateString v\<close> is \<open>new Date(v).toDateString()\<close>.
\<close>

record host =
  marked_parse :: "jsval \<Rightarrow> string option"
  hljs_getLanguage :: "jsval \<Rightarrow> bool option"
  hljs_highlight :: "jsval \<Rightarrow> jsval \<Rightarrow> string option"
  hljs_highlightAuto :: "jsval \<Rightarrow> string option"
  url_parse :: "jsval \<Rightarrow> (string \<times> string \<times> string) option"
  search_get :: "string \<Rightarrow> string \<Rightarrow> string option"
  date_toDateString :: "jsval \<Rightarrow> string option"

definition call :: "'a option \<Rightarrow> error + 'a" where
  "call r = (case r of None \<Rightarrow> Inl HostError | Some x \<Rightarrow> Inr x)"

text \<open>
  \<open>Math.min(Math.max(parseInt(level) || 2, 1), 6)\<close>, the expression both heading renderers
  compute. \<open>parseInt\<close> first takes the string of its argument.
\<close>

definition validLevel :: "jsval \<Rightarrow> error + int" where
  "validLevel level =
     try_bind (to_string level)
       (\<lambda>s. Inr (min (max (case parseInt s of
                               None \<Rightarrow> 2
                             | Some i \<Rightarrow> if i = 0 then 2 else i) 1) 6))"

subsection \<open>Markdown (src/renderers/markdown.js)\<close>

definition renderTextBlockToMarkdown :: "jsval \<Rightarrow> error + jsval" where
  "renderTextBlockToMarkdown block = Inr (get_prop block ''content'')"

definition renderHeadingBlockToMarkdown :: "jsval \<Rightarrow> error + jsval" where
  "renderHeadingBlockToMarkdown block =
     try_bind (validLevel (get_prop block ''level'')) (\<lambda>level.
     try_bind (to_string (get_prop block ''content'')) (\<lambda>content.
       Inr (JStr (replicate (nat level) (CHR ''#'') @ '' '' @ content))))"

definition renderImageBlockToMarkdown :: "jsval \<Rightarrow> error + jsval" where
  "renderImageBlockToMarkdown block =
     try_bind (to_string (js_or (get_prop block ''alt'') (JStr ''''))) (\<lambda>alt.
     try_bind (to_string (get_prop block ''url'')) (\<lambda>url.
       let markdown = ''!['' @ alt @ '']('' @ url @ '')'' in
       if truthy (get_prop block ''caption'')
       then try_bind (to_string (get_prop block ''caption'')) (\<lambda>caption.
              Inr (JStr (markdown @ nl @ ''*'' @ caption @ ''*'')))
       else Inr (JStr markdown)))"

definition renderCodeBlockToMarkdown :: "jsval \<Rightarrow> error + jsval" where
  "renderCodeBlockToMarkdown block =
     try_bind (to_string (js_or (get_prop block ''language'') (JStr ''''))) (\<lambda>language.
     try_bind (to_string (get_prop block ''content'')) (\<lambda>content.
       Inr (JStr ([CHR 0x60, CHR 0x60, CHR 0x60] @ language @ nl @ content @ nl
                  @ [CHR 0x60, CHR 0x60, CHR 0x60]))))"

text \<open>The callback of \<open>items.map\<close>, with the index of the item.\<close>

definition list_item_markdown :: "jsval \<Rightarrow> nat \<times> jsval \<Rightarrow> error + jsval" where
  "list_item_markdown listType p =
     try_bind (to_string (snd p)) (\<lambda>item.
       if strict_eq listType (JStr ''ordered'')
       then Inr (JStr (digits (fst p + 1) @ ''. '' @ item))
       else Inr (JStr (''- '' @ item)))"

definition renderListBlockToMarkdown :: "jsval \<Rightarrow> error + jsval" where
  "renderListBlockToMarkdown block =
     (let items = get_prop block ''items''; listType = get_prop block ''listType'' in
      if \<not> truthy items \<or> \<not> isArray items then Inr (JStr ''[Invalid list items]'')
      else
        try_bind (sequence (map (list_item_markdown listType) (enumerate 0 (elements items))))
          (\<lambda>lines. try_bind (array_join nl lines) (\<lambda>s. Inr (JStr s))))"

text \<open>\<open>s.split('\n')\<close>\<close>

fun split_lines :: "string \<Rightarrow> string list" where
  "split_lines [] = [[]]"
| "split_lines (c # cs) =
     (if c = CHR 0x0A then [] # split_lines cs
      else (case split_lines cs of l # ls \<Rightarrow> (c # l) # ls | [] \<Rightarrow> [[c]]))"

text \<open>
  \<open>content.split\<close> exists on a string only; on any other value the call raises. The
  character before the attribution is the one the source file holds, \<open>U+0014\<close>.
\<close>

definition renderQuoteBlockToMarkdown :: "jsval \<Rightarrow> error + jsval" where
  "renderQuoteBlockToMarkdown block =
     (case get_prop block ''content'' of
        JStr content \<Rightarrow>
          (let markdown = join nl (map (\<lambda>line. ''> '' @ line) (split_lines content)) in
           if truthy (get_prop block ''attribution'')
           then try_bind (to_string (get_prop block ''attribution'')) (\<lambda>attribution.
                  Inr (JStr (markdown @ nl @ ''>'' @ nl @ ''> '' @ [CHR 0x14] @ '' '' @ attribution)))
           else Inr (JStr markdown))
      | _ \<Rightarrow> Inl TypeError)"

definition renderEmbedBlockToMarkdown :: "jsval \<Rightarrow> error + jsval" where
  "renderEmbedBlockToMarkdown block =
     try_bind (to_string (js_or (get_prop block ''embedType'') (JStr ''Embedded content'')))
       (\<lambda>embedType.
     try_bind (to_string (get_prop block ''url'')) (\<lambda>url.
       let markdown = ''['' @ embedType @ '': '' @ url @ '']('' @ url @ '')'' in
       if truthy (get_prop block ''caption'')
       then try_bind (to_string (get_prop block ''caption'')) (\<lambda>caption.
              Inr (JStr (markdown @ nl @ ''*'' @ caption @ ''*'')))
       else Inr (JStr markdown)))"

text \<open>
  \<open>renderBlockToMarkdown\<close>: destructuring a block that is \<open>null\<close> or \<open>undefined\<close> raises; the
  \<open>switch\<close> compares \<open>type\<close> with \<open>===\<close>.
\<close>

definition renderBlockToMarkdown :: "jsval \<Rightarrow> error + jsval" where
  "renderBlockToMarkdown block =
     (if nullish block then Inl TypeError
      else
        (let type = get_prop block ''type'' in
         if strict_eq type (JStr ''text'') then renderTextBlockToMarkdown block
         else if strict_eq type (JStr ''heading'') then renderHeadingBlockToMarkdown block
         else if strict_eq type (JStr ''image'') then renderImageBlockToMarkdown block
         else if strict_eq type (JStr ''code'') then renderCodeBlockToMarkdown block
         else if strict_eq type (JStr ''list'') then renderListBlockToMarkdown block
         else if strict_eq type (JStr ''quote'') then renderQuoteBlockToMarkdown block
         else if strict_eq type (JStr ''embed'') then renderEmbedBlockToMarkdown block
         else if strict_eq type (JStr ''divider'') then Inr (JStr ''---'')
         else try_bind (to_string type) (\<lambda>t. Inr (JStr (''[Unknown block type: '' @ t @ '']'')))))"

text \<open>The lines that \<open>renderToMarkdown\<close> pushes for the metadata.\<close>

definition metadata_markdown :: "host \<Rightarrow> jsval \<Rightarrow> error + string list" where
  "metadata_markdown h meta =
     (if \<not> truthy meta then Inr []
      else
        try_bind
          (if truthy (get_prop meta ''author'')
           then try_bind (to_string (get_prop meta ''author''))
                  (\<lambda>a. Inr [''> Author: '' @ a])
           else Inr []) (\<lambda>author.
        try_bind
          (if truthy (get_prop meta ''publishedDate'')
           then try_bind (call (date_toDateString h (get_prop meta ''publishedDate'')))
                  (\<lambda>d. Inr [''> Published: '' @ d])
           else Inr []) (\<lambda>published.
        try_bind
          (let tags = get_prop meta ''tags'' in
           if truthy tags \<and> isArray tags \<and> length (elements tags) > 0
           then try_bind (array_join '', '' (elements tags))
                  (\<lambda>t. Inr [''> Tags: '' @ t])
           else Inr []) (\<lambda>tags.
        Inr (author @ published @ tags @ [''''])))))"

text \<open>The two pushes of the loop over the blocks: the rendering, then an empty line.\<close>

definition with_blank :: "jsval list \<Rightarrow> jsval list" where
  "with_blank rendered = concat (map (\<lambda>r. [r, JStr '''']) rendered)"

definition renderToMarkdown :: "host \<Rightarrow> jsval \<Rightarrow> error + string" where
  "renderToMarkdown h art =
     (if \<not> truthy art \<or> \<not> truthy (get_prop art ''blocks'')
         \<or> \<not> isArray (get_prop art ''blocks'')
      then Inl InvalidArticleStructureError
      else
        try_bind (to_string (get_prop art ''title'')) (\<lambda>title.
        try_bind (metadata_markdown h (get_prop art ''metadata'')) (\<lambda>meta.
        try_bind (sequence (map renderBlockToMarkdown (elements (get_prop art ''blocks''))))
          (\<lambda>rendered.
        array_join nl
          ([JStr (''# '' @ title), JStr ''''] @ map JStr meta @ with_blank rendered)))))"

subsection \<open>HTML (src/renderers/html.js)\<close>

definition renderTextBlock :: "host \<Rightarrow> jsval \<Rightarrow> error + string" where
  "renderTextBlock h block = call (marked_parse h (get_prop block ''content''))"

definition renderHeadingBlock :: "jsval \<Rightarrow> error + string" where
  "renderHeadingBlock block =
     try_bind (validLevel (get_prop block ''level'')) (\<lambda>level.
     try_bind (sanitizeHtml (get_prop block ''content'')) (\<lambda>content.
       Inr (''<h'' @ int_to_string level @ ''>'' @ content @ ''</h'' @ int_to_string level @ ''>'')))"

definition figure :: "jsval \<Rightarrow> string \<Rightarrow> error + string" where
  "figure caption html =
     (if truthy caption
      then try_bind (sanitizeHtml caption) (\<lambda>c.
             Inr (''<figure class='' @ dq @ ''blockdoc-figure'' @ dq @ ''>'' @ html
                  @ ''<figcaption class='' @ dq @ ''blockdoc-caption'' @ dq @ ''>'' @ c
                  @ ''</figcaption>'' @ ''</figure>''))
      else Inr html)"

definition renderImageBlock :: "jsval \<Rightarrow> error + string" where
  "renderImageBlock block =
     try_bind (sanitizeHtml (get_prop block ''url'')) (\<lambda>url.
     try_bind (sanitizeHtml (get_prop block ''alt'')) (\<lambda>alt.
       figure (get_prop block ''caption'')
         (''<img src='' @ dq @ url @ dq @ '' alt='' @ dq @ alt @ dq @ '' class='' @ dq
          @ ''blockdoc-image'' @ dq @ '' />'')))"

text \<open>
  \<open>renderCodeBlock\<close>. The three calls of highlight.js stand in a \<open>try\<close>; when one raises, the
  \<open>catch\<close> takes the escaped content.
\<close>

definition highlighted :: "host \<Rightarrow> jsval \<Rightarrow> jsval \<Rightarrow> string option" where
  "highlighted h language content =
     (if truthy language
      then (case hljs_getLanguage h language of
              None \<Rightarrow> None
            | Some known \<Rightarrow>
                if known then hljs_highlight h content language
                else hljs_highlightAuto h content)
      else hljs_highlightAuto h content)"

definition renderCodeBlock :: "host \<Rightarrow> jsval \<Rightarrow> error + string" where
  "renderCodeBlock h block =
     (let language = get_prop block ''language''; content = get_prop block ''content'' in
      try_bind
        (case highlighted h language content of
           Some code \<Rightarrow> Inr code
         | None \<Rightarrow> sanitizeHtml content) (\<lambda>highlightedCode.
      try_bind
        (if truthy language
         then try_bind (to_string language) (\<lambda>l. Inr (''language-'' @ l))
         else Inr '''') (\<lambda>cls.
        Inr (nl @ ''    <pre class='' @ dq @ ''blockdoc-pre'' @ dq @ ''>'' @ nl
             @ ''      <code class='' @ dq @ ''blockdoc-code '' @ cls @ dq @ ''>''
             @ highlightedCode @ ''</code>'' @ nl @ ''    </pre>'' @ nl @ ''  ''))))"

definition renderListBlock :: "host \<Rightarrow> jsval \<Rightarrow> error + string" where
  "renderListBlock h block =
     (let items = get_prop block ''items''; listType = get_prop block ''listType'' in
      if \<not> truthy items \<or> \<not> isArray items then Inr ''<p>Invalid list items</p>''
      else
        (let tag = (if strict_eq listType (JStr ''ordered'') then ''ol'' else ''ul'') in
         try_bind
           (sequence
              (map (\<lambda>item. try_bind (call (marked_parse h item))
                              (\<lambda>html. Inr (''<li>'' @ html @ ''</li>'')))
                 (elements items))) (\<lambda>itemsHtml.
         try_bind (to_string listType) (\<lambda>lt.
           Inr (''<'' @ tag @ '' class='' @ dq @ ''blockdoc-list blockdoc-list-'' @ lt @ dq
                @ ''>'' @ join '''' itemsHtml @ ''</'' @ tag @ ''>'')))))"

definition renderQuoteBlock :: "host \<Rightarrow> jsval \<Rightarrow> error + string" where
  "renderQuoteBlock h block =
     try_bind (call (marked_parse h (get_prop block ''content''))) (\<lambda>content.
       let html = ''<blockquote class='' @ dq @ ''blockdoc-quote'' @ dq @ ''>'' @ content
                  @ ''</blockquote>'' in
       if truthy (get_prop block ''attribution'')
       then try_bind (sanitizeHtml (get_prop block ''attribution'')) (\<lambda>attribution.
              Inr (html @ ''<cite class='' @ dq @ ''blockdoc-attribution'' @ dq @ ''>''
                   @ attribution @ ''</cite>''))
       else Inr html)"

text \<open>\<open>extractYouTubeId\<close>: the video id, or \<open>None\<close> for \<open>null\<close>; every exception is caught.\<close>

definition extractYouTubeId :: "host \<Rightarrow> jsval \<Rightarrow> string option" where
  "extractYouTubeId h url =
     (case url_parse h url of
        None \<Rightarrow> None
      | Some (hostname, pathname, search) \<Rightarrow>
          if hostname = ''youtu.be'' then Some (drop 1 pathname)
          else if hostname = ''www.youtube.com'' \<or> hostname = ''youtube.com''
          then search_get h search ''v''
          else None)"

definition renderEmbedBlock :: "host \<Rightarrow> jsval \<Rightarrow> error + string" where
  "renderEmbedBlock h block =
     (let url = get_prop block ''url''; embedType = get_prop block ''embedType'' in
      try_bind
        (if strict_eq embedType (JStr ''youtube'')
         then (case extractYouTubeId h url of
                 Some videoId \<Rightarrow>
                   if videoId \<noteq> []
                   then Inr (nl @ ''        <div class='' @ dq @ ''blockdoc-embed-container'' @ dq
                        @ ''>'' @ nl @ ''          <iframe '' @ nl @ ''            width='' @ dq
                        @ ''560'' @ dq @ '' '' @ nl @ ''            height='' @ dq @ ''315'' @ dq
                        @ '' '' @ nl @ ''            src='' @ dq
                        @ ''https://www.youtube.com/embed/'' @ videoId @ dq @ '' '' @ nl
                        @ ''            frameborder='' @ dq @ ''0'' @ dq @ '' '' @ nl
                        @ ''            allow='' @ dq
                        @ ''accelerometer; autoplay; clipboard-write; encrypted-media; gyroscope; picture-in-picture''
                        @ dq @ '' '' @ nl @ ''            allowfullscreen>'' @ nl
                        @ ''          </iframe>'' @ nl @ ''        </div>'' @ nl @ ''      '')
                   else Inr ''<p>Invalid YouTube URL</p>''
               | None \<Rightarrow> Inr ''<p>Invalid YouTube URL</p>'')
         else if strict_eq embedType (JStr ''twitter'')
         then try_bind (sanitizeHtml url) (\<lambda>u.
                Inr (nl @ ''      <div class='' @ dq @ ''blockdoc-embed blockdoc-twitter'' @ dq
                     @ ''>'' @ nl @ ''        <blockquote class='' @ dq @ ''twitter-tweet'' @ dq
                     @ ''>'' @ nl @ ''          <a href='' @ dq @ u @ dq @ ''></a>'' @ nl
                     @ ''        </blockquote>'' @ nl @ ''        <script async src='' @ dq
                     @ ''https://platform.twitter.com/widgets.js'' @ dq @ '' charset='' @ dq
                     @ ''utf-8'' @ dq @ ''></script>'' @ nl @ ''      </div>'' @ nl @ ''    ''))
         else try_bind (sanitizeHtml url) (\<lambda>u.
                Inr (nl @ ''      <div class='' @ dq @ ''blockdoc-embed'' @ dq @ ''>'' @ nl
                     @ ''        <iframe '' @ nl @ ''          src='' @ dq @ u @ dq @ '' '' @ nl
                     @ ''          frameborder='' @ dq @ ''0'' @ dq @ '' '' @ nl
                     @ ''          width='' @ dq @ ''100%'' @ dq @ '' '' @ nl
                     @ ''          height='' @ dq @ ''400'' @ dq @ nl
                     @ ''          allowfullscreen>'' @ nl @ ''        </iframe>'' @ nl
                     @ ''      </div>'' @ nl @ ''    '')))
        (\<lambda>embedHtml. figure (get_prop block ''caption'') embedHtml))"

definition renderDividerBlock :: string where
  "renderDividerBlock = ''<hr class='' @ dq @ ''blockdoc-divider'' @ dq @ '' />''"

text \<open>
  \<open>renderBlock\<close>. The opening wrapper, with the strings of \<open>type\<close> and \<open>id\<close>, is built before
  the \<open>switch\<close>.
\<close>

definition renderBlock :: "host \<Rightarrow> jsval \<Rightarrow> error + string" where
  "renderBlock h block =
     (if nullish block then Inl TypeError
      else
        (let bid = get_prop block ''id''; type = get_prop block ''type'' in
         try_bind (to_string type) (\<lambda>t.
         try_bind (to_string bid) (\<lambda>i.
         try_bind
           (if strict_eq type (JStr ''text'') then renderTextBlock h block
            else if strict_eq type (JStr ''heading'') then renderHeadingBlock block
            else if strict_eq type (JStr ''image'') then renderImageBlock block
            else if strict_eq type (JStr ''code'') then renderCodeBlock h block
            else if strict_eq type (JStr ''list'') then renderListBlock h block
            else if strict_eq type (JStr ''quote'') then renderQuoteBlock h block
            else if strict_eq type (JStr ''embed'') then renderEmbedBlock h block
            else if strict_eq type (JStr ''divider'') then Inr renderDividerBlock
            else Inr (''<p>Unknown block type: '' @ t @ ''</p>'')) (\<lambda>content.
           Inr (''<div class='' @ dq @ ''blockdoc-block blockdoc-'' @ t @ dq
                @ '' data-block-id='' @ dq @ i @ dq @ '' data-block-type='' @ dq @ t @ dq @ ''>''
                @ content @ ''</div>''))))))"

definition renderToHTML :: "host \<Rightarrow> jsval \<Rightarrow> error + string" where
  "renderToHTML h art =
     (if \<not> truthy art \<or> \<not> truthy (get_prop art ''blocks'')
         \<or> \<not> isArray (get_prop art ''blocks'')
      then Inl InvalidArticleStructureError
      else
        try_bind (sanitizeHtml (get_prop art ''title'')) (\<lambda>title.
        try_bind (sequence (map (renderBlock h) (elements (get_prop art ''blocks''))))
          (\<lambda>rendered.
        Inr (join nl
               ([''<article class='' @ dq @ ''blockdoc-article'' @ dq @ ''>'',
                 ''<h1 class='' @ dq @ ''blockdoc-title'' @ dq @ ''>'' @ title @ ''</h1>'']
                @ rendered @ [''</article>''])))))"

text \<open>The methods of the document that delegate to the renderers.\<close>

definition document_renderToHTML :: "host \<Rightarrow> BlockDocDocument \<Rightarrow> error + string" where
  "document_renderToHTML h doc = renderToHTML h (article_value (article doc))"

definition document_renderToMarkdown :: "host \<Rightarrow> BlockDocDocument \<Rightarrow> error + string" where
  "document_renderToMarkdown h doc = renderToMarkdown h (article_value (article doc))"

text \<open>A heading block with the given level, for the examples.\<close>

definition heading_example :: "jsval \<Rightarrow> jsval" where
  "heading_example level =
     JObj [(''id'', JStr ''h''), (''type'', JStr ''heading''), (''level'', level),
           (''content'', JStr ''X'')]"







section \<open>Serialization (the rest of src/core/document.js)\<close>

text \<open>
  \<open>JSON.stringify\<close> and \<open>JSON.parse\<close> belong to the language. A JSON text is modelled by the
  document it denotes, not by its characters: white space, and so the indentation that
  \<open>toString()\<close> asks for, has no part in what \<open>JSON.parse\<close> gives back. A text that is no
  JSON (a \<open>SyntaxError\<close>) is outside the model.
\<close>

datatype json =
    JsonNull
  | JsonBool bool
  | JsonNumber bool nat int
  | JsonString string
  | JsonArray "json list"
  | JsonObject "(string \<times> json) list"

text \<open>
  \<open>JSON.stringify(v)\<close>, \<open>None\<close> for the result \<open>undefined\<close>. A property whose value is
  \<open>undefined\<close> is left out, an \<open>undefined\<close> array element becomes \<open>null\<close>, \<open>NaN\<close> and the
  infinities become \<open>null\<close>, and negative zero is written \<open>0\<close>.
\<close>

fun JSON_stringify :: "jsval \<Rightarrow> json option" where
  "JSON_stringify JUndefined = None"
| "JSON_stringify JNull = Some JsonNull"
| "JSON_stringify (JBool b) = Some (JsonBool b)"
| "JSON_stringify (JNum (Dec neg s n)) = Some (JsonNumber (neg \<and> s \<noteq> 0) s n)"
| "JSON_stringify (JNum x) = Some JsonNull"
| "JSON_stringify (JStr s) = Some (JsonString s)"
| "JSON_stringify (JArr xs) =
     Some (JsonArray (map (\<lambda>x. case JSON_stringify x of None \<Rightarrow> JsonNull | Some j \<Rightarrow> j) xs))"
| "JSON_stringify (JObj kvs) =
     Some (JsonObject
       (concat (map (\<lambda>kv. case JSON_stringify (snd kv) of
                             None \<Rightarrow> []
                           | Some j \<Rightarrow> [(fst kv, j)]) kvs)))"

text \<open>
  \<open>JSON.parse(text)\<close>. The members of an object are assigned in the order of the text, so a
  repeated name keeps its first place and its last value.
\<close>

fun JSON_parse :: "json \<Rightarrow> jsval" where
  "JSON_parse JsonNull = JNull"
| "JSON_parse (JsonBool b) = JBool b"
| "JSON_parse (JsonNumber neg s n) = JNum (Dec neg s n)"
| "JSON_parse (JsonString s) = JStr s"
| "JSON_parse (JsonArray js) = JArr (map JSON_parse js)"
| "JSON_parse (JsonObject kjs) = JObj (spread [] (map (\<lambda>kj. (fst kj, JSON_parse (snd kj))) kjs))"

definition document_toString :: "BlockDocDocument \<Rightarrow> json option" where
  "document_toString doc = JSON_stringify (document_toJSON doc)"

text \<open>
  The argument of \<open>fromJSON\<close>: a string, given as the JSON text it holds, or a value that is
  no string.
\<close>

datatype json_input = FromText json | FromObject jsval

definition fromJSON :: "json_input \<Rightarrow> error + BlockDocDocument" where
  "fromJSON input =
     (let data = (case input of FromText text \<Rightarrow> JSON_parse text | FromObject v \<Rightarrow> v) in
      if nullish data then Inl TypeError
      else if \<not> truthy (get_prop data ''article'') then Inl MissingArticleError
      else
        new_BlockDocDocument
          (JObj [(''title'', get_prop (get_prop data ''article'') ''title''),
                 (''metadata'', js_or (get_prop (get_prop data ''article'') ''metadata'') (JObj [])),
                 (''blocks'', js_or (get_prop (get_prop data ''article'') ''blocks'') (JArr []))]))"

text \<open>\<open>Document.fromJSON(doc.toString())\<close>; \<open>fromJSON(undefined)\<close> would raise on \<open>data.article\<close>.\<close>

definition reload :: "BlockDocDocument \<Rightarrow> error + BlockDocDocument" where
  "reload doc =
     (case document_toString doc of
        Some text \<Rightarrow> fromJSON (FromText text)
      | None \<Rightarrow> Inl TypeError)"

section \<open>Notions of the specification\<close>

text \<open>The ids of the stored blocks are pairwise distinct, under \<open>===\<close>.\<close>

fun ids_distinct :: "jsobj list \<Rightarrow> bool" where
  "ids_distinct [] = True"
| "ids_distinct (block # rest) =
     (\<not> list_ex (has_id (get_prop (JObj block) ''id'')) rest \<and> ids_distinct rest)"

text \<open>
  The values that JSON can carry unchanged: no \<open>undefined\<close>, no \<open>NaN\<close>, no infinity, no
  negative zero, anywhere inside; objects with each name once.
\<close>

fun json_value :: "jsval \<Rightarrow> bool" where
  "json_value JUndefined = False"
| "json_value JNull = True"
| "json_value (JBool b) = True"
| "json_value (JNum (Dec neg s n)) = (\<not> (neg \<and> s = 0))"
| "json_value (JNum x) = False"
| "json_value (JStr s) = True"
| "json_value (JArr xs) = list_all json_value xs"
| "json_value (JObj kvs) =
     (distinct (map fst kvs) \<and> list_all (\<lambda>kv. json_value (snd kv)) kvs)"

text \<open>
  The documents that the class itself builds: by the constructor, and from such a document
  by one of the five operations, whatever the arguments and whether the call returns or
  raises.
\<close>

inductive built :: "BlockDocDocument \<Rightarrow> bool" where
  constructed: "new_BlockDocDocument options = Inr doc \<Longrightarrow> built doc"
| added: "built doc \<Longrightarrow> addBlock doc blockData = (r, doc') \<Longrightarrow> built doc'"
| inserted: "built doc \<Longrightarrow> insertBlock doc blockData position = (r, doc') \<Longrightarrow> built doc'"
| updated: "built doc \<Longrightarrow> updateBlock doc bid updates = (r, doc') \<Longrightarrow> built doc'"
| removed: "built doc \<Longrightarrow> removeBlock doc bid = (r', doc') \<Longrightarrow> built doc'"
| moved: "built doc \<Longrightarrow> moveBlock doc bid newPosition = (r', doc') \<Longrightarrow> built doc'"

text \<open>
  The state of the instance while the additional properties are copied: after the fixed
  part \<open>fixed\<close> (the three basic and the required properties) come properties copied from
  \<open>data\<close> under names that no prototype defines.
\<close>

definition extras_of :: "jsval \<Rightarrow> jsobj \<Rightarrow> jsobj \<Rightarrow> bool" where
  "extras_of data fixed ex \<longleftrightarrow>
     distinct (map fst (fixed @ ex)) \<and>
     (\<forall>kv\<in>set ex. fst kv \<notin> set INHERITED \<and> fst kv \<notin> set [''id'', ''type'', ''content'']
                   \<and> snd kv = get_prop data (fst kv))"

text \<open>The fixed part of an instance of type \<open>T\<close> built from \<open>data\<close>.\<close>

definition fixed_part :: "jsval \<Rightarrow> string \<Rightarrow> jsobj" where
  "fixed_part data T =
     [(''id'', get_prop data ''id''), (''type'', JStr T),
      (''content'', js_or (get_prop data ''content'') (JStr ''''))]
     @ map (\<lambda>p. (p, get_prop data p)) (requiredProps T)"

text \<open>
  A stored block that the constructor of \<open>Block\<close> accepts and gives back unchanged, and that
  \<open>toJSON\<close> leaves as it is.
\<close>

definition validated :: "jsobj \<Rightarrow> bool" where
  "validated b \<longleftrightarrow> Block (JObj b) = Inr b \<and> toJSON b = b"

text \<open>A document whose metadata holds \<open>NaN\<close>, and the same with \<open>null\<close> in its place.\<close>

definition nan_doc :: BlockDocDocument where
  "nan_doc = \<lparr>article = \<lparr>title = JStr ''T'',
      metadata = JObj [(''readingTime'', JNum NaN)],
      blocks = [[(''id'', JStr ''a''), (''type'', JStr ''text''), (''content'', JStr ''x'')]]\<rparr>\<rparr>"

definition null_doc :: BlockDocDocument where
  "null_doc = \<lparr>article = \<lparr>title = JStr ''T'',
      metadata = JObj [(''readingTime'', JNull)],
      blocks = [[(''id'', JStr ''a''), (''type'', JStr ''text''), (''content'', JStr ''x'')]]\<rparr>\<rparr>"

section \<open>Properties of the sanitizer\<close>

lemma lower_ascii_h: "lower_ascii c = CHR ''h'' \<longleftrightarrow> ci (CHR ''h'') (CHR ''H'') c"
  unfolding lower_ascii_def ci_def by (auto split: option.splits if_splits)

lemma lower_ascii_t: "lower_ascii c = CHR ''t'' \<longleftrightarrow> ci (CHR ''t'') (CHR ''T'') c"
  unfolding lower_ascii_def ci_def by (auto split: option.splits if_splits)

lemma lower_ascii_p: "lower_ascii c = CHR ''p'' \<longleftrightarrow> ci (CHR ''p'') (CHR ''P'') c"
  unfolding lower_ascii_def ci_def by (auto split: option.splits if_splits)

lemma lower_ascii_s: "lower_ascii c = CHR ''s'' \<longleftrightarrow> ci (CHR ''s'') (CHR ''S'') c"
  unfolding lower_ascii_def ci_def by (auto split: option.splits if_splits)

lemma lower_ascii_colon: "lower_ascii c = CHR '':'' \<longleftrightarrow> c = CHR '':''"
  unfolding lower_ascii_def by (auto split: option.splits if_splits)

lemma lower_ascii_slash: "lower_ascii c = CHR ''/'' \<longleftrightarrow> c = CHR ''/''"
  unfolding lower_ascii_def by (auto split: option.splits if_splits)

lemma lower_ascii_pattern:
  "lower_ascii (CHR ''h'') = CHR ''h''" "lower_ascii (CHR ''t'') = CHR ''t''"
  "lower_ascii (CHR ''p'') = CHR ''p''" "lower_ascii (CHR ''s'') = CHR ''s''"
  "lower_ascii (CHR '':'') = CHR '':''" "lower_ascii (CHR ''/'') = CHR ''/''"
  by (simp_all add: lower_ascii_def)

text \<open>The regular expression accepts exactly the strings that begin, in any case, with one
  of the two schemes.\<close>

lemma match_http_spec:
  "match_http s \<longleftrightarrow> starts_with_ci ''http://'' s \<or> starts_with_ci ''https://'' s"
proof (cases s)
  case Nil
  then show ?thesis by (simp add: starts_with_ci_def)
next
  case (Cons a s1)
  show ?thesis
    apply (cases s1; cases "tl s1"; cases "tl (tl s1)"; cases "tl (tl (tl s1))";
        cases "tl (tl (tl (tl s1)))"; cases "tl (tl (tl (tl (tl s1))))";
        cases "tl (tl (tl (tl (tl (tl s1)))))"; cases "tl (tl (tl (tl (tl (tl (tl s1))))))")
    apply (auto simp: Cons starts_with_ci_def lower_ascii_pattern lower_ascii_h lower_ascii_t
        lower_ascii_p lower_ascii_s lower_ascii_colon lower_ascii_slash prefix_def)
    done
qed

text \<open>
  Claim C2. \<open>sanitizeUrl\<close> returns the empty string for a falsy input; for a non-empty
  string it returns the string itself when it begins with \<open>http://\<close> or \<open>https://\<close> in any
  case, \<open>https:\<close> followed by the string when it begins with \<open>//\<close>, the string itself when
  it holds no colon, and the empty string in every other case.
\<close>

theorem sanitizeUrl_cases:
  "(\<not> truthy url \<longrightarrow> sanitizeUrl url = Inr '''') \<and>
   (url = JStr s \<and> s \<noteq> [] \<longrightarrow>
      sanitizeUrl url = Inr
        (if starts_with_ci ''http://'' s \<or> starts_with_ci ''https://'' s then s
         else if prefix ''//'' s then ''https:'' @ s
         else if CHR '':'' \<notin> set s then s
         else ''''))"
  by (cases url) (simp_all add: match_http_spec)

theorem sanitizeUrl_cases_witness:
  "sanitizeUrl JUndefined = Inr '''' \<and>
   sanitizeUrl (JStr ''HTTPS://example.com/a:b'') = Inr ''HTTPS://example.com/a:b'' \<and>
   sanitizeUrl (JStr ''//example.com/x'') = Inr ''https://example.com/x'' \<and>
   sanitizeUrl (JStr ''/a/b'') = Inr ''/a/b'' \<and>
   sanitizeUrl (JStr ''javascript:alert(1)'') = Inr ''''"
  using sanitizeUrl_cases[of JUndefined "[]"]
    sanitizeUrl_cases[of "JStr ''HTTPS://example.com/a:b''" "''HTTPS://example.com/a:b''"]
    sanitizeUrl_cases[of "JStr ''//example.com/x''" "''//example.com/x''"]
    sanitizeUrl_cases[of "JStr ''/a/b''" "''/a/b''"]
    sanitizeUrl_cases[of "JStr ''javascript:alert(1)''" "''javascript:alert(1)''"]
  by (simp add: starts_with_ci_def lower_ascii_def)

lemma sanitizeHtml_string: "sanitizeHtml (JStr s) = Inr (replace_specials s)"
  by (simp add: sanitizeHtml_def try_bind_def replace_specials_def)

lemma html_entity_plain: "\<not> html_special c \<Longrightarrow> html_entity c = [c]"
  by (simp add: html_entity_def html_special_def)

lemma html_entity_longer: "html_special c \<Longrightarrow> 1 < length (html_entity c)"
  by (auto simp: html_entity_def html_special_def)

lemma html_entity_amp: "html_special c \<Longrightarrow> CHR ''&'' \<in> set (html_entity c)"
  by (auto simp: html_entity_def html_special_def)

lemma replace_specials_plain: "\<forall>c\<in>set s. \<not> html_special c \<Longrightarrow> replace_specials s = s"
  by (induction s) (simp_all add: replace_specials_def html_entity_plain)

lemma replace_specials_length: "length s \<le> length (replace_specials s)"
proof (induction s)
  case Nil
  show ?case by (simp add: replace_specials_def)
next
  case (Cons c s)
  have "1 \<le> length (html_entity c)" by (simp add: html_entity_def)
  with Cons show ?case by (simp add: replace_specials_def)
qed

lemma replace_specials_grows:
  "\<exists>c\<in>set s. html_special c \<Longrightarrow> length s < length (replace_specials s)"
proof (induction s)
  case Nil
  then show ?case by simp
next
  case (Cons c s)
  have rest: "length s \<le> length (replace_specials s)" by (rule replace_specials_length)
  have one: "1 \<le> length (html_entity c)" by (simp add: html_entity_def)
  show ?case
  proof (cases "html_special c")
    case True
    from html_entity_longer[OF True] rest show ?thesis by (simp add: replace_specials_def)
  next
    case False
    with Cons.prems have "\<exists>c\<in>set s. html_special c" by auto
    from Cons.IH[OF this] one show ?thesis by (simp add: replace_specials_def)
  qed
qed

lemma replace_specials_fixed: "replace_specials t = t \<longleftrightarrow> (\<forall>c\<in>set t. \<not> html_special c)"
proof
  assume eq: "replace_specials t = t"
  show "\<forall>c\<in>set t. \<not> html_special c"
  proof (rule ccontr)
    assume "\<not> (\<forall>c\<in>set t. \<not> html_special c)"
    then have "\<exists>c\<in>set t. html_special c" by simp
    from replace_specials_grows[OF this] eq show False by simp
  qed
next
  assume "\<forall>c\<in>set t. \<not> html_special c"
  then show "replace_specials t = t" by (rule replace_specials_plain)
qed

lemma replace_specials_keeps_special:
  "(\<exists>c\<in>set (replace_specials s). html_special c) \<longleftrightarrow> (\<exists>c\<in>set s. html_special c)"
proof
  assume "\<exists>c\<in>set (replace_specials s). html_special c"
  then show "\<exists>c\<in>set s. html_special c"
    using replace_specials_plain[of s] by metis
next
  assume "\<exists>c\<in>set s. html_special c"
  then obtain c where c: "c \<in> set s" "html_special c" by blast
  have "CHR ''&'' \<in> set (replace_specials s)"
    using c html_entity_amp[of c] by (auto simp: replace_specials_def)
  moreover have "html_special (CHR ''&'')" by (simp add: html_special_def)
  ultimately show "\<exists>c\<in>set (replace_specials s). html_special c" by blast
qed

text \<open>
  Claim C9, as amended. \<open>sanitizeHtml\<close> is one substitution pass, and the entities it writes
  begin with \<open>&\<close>, which the next pass escapes again: applying it twice gives the result of
  applying it once exactly when the string holds none of the five characters
  \<open>& < > " '\<close>, and then the string comes back unchanged.
\<close>

theorem sanitizeHtml_twice:
  "(\<exists>t. sanitizeHtml (JStr s) = Inr t \<and>
        (sanitizeHtml (JStr t) = Inr t \<longleftrightarrow> (\<forall>c\<in>set s. \<not> html_special c))) \<and>
   ((\<forall>c\<in>set s. \<not> html_special c) \<longrightarrow> sanitizeHtml (JStr s) = Inr s)"
proof -
  have twice: "replace_specials (replace_specials s) = replace_specials s
             \<longleftrightarrow> (\<forall>c\<in>set s. \<not> html_special c)"
    using replace_specials_fixed[of "replace_specials s"] replace_specials_keeps_special[of s]
    by blast
  show ?thesis
    using twice replace_specials_plain[of s] by (simp add: sanitizeHtml_string)
qed

theorem sanitizeHtml_twice_witness:
  "sanitizeHtml (JStr ''a b'') = Inr ''a b'' \<and>
   sanitizeHtml (JStr ''<b>'') = Inr ''&lt;b&gt;'' \<and>
   sanitizeHtml (JStr ''&lt;b&gt;'') \<noteq> Inr ''&lt;b&gt;''"
  using sanitizeHtml_twice[of "''a b''"] sanitizeHtml_twice[of "''<b>''"]
  by (simp add: html_special_def sanitizeHtml_string replace_specials_def html_entity_def)

text \<open>
  Claim C9 as stated fails: the already-escaped \<open>&amp;\<close> is escaped a second time.
\<close>

theorem sanitizeHtml_double_encodes:
  "sanitizeHtml (JStr ''&'') = Inr ''&amp;'' \<and>
   sanitizeHtml (JStr ''&amp;'') = Inr ''&amp;amp;''"
  by (simp add: sanitizeHtml_string replace_specials_def html_entity_def)

section \<open>Properties of the document operations\<close>

lemma findIndex_ge: "- 1 \<le> findIndex P xs"
  by (induction xs) (auto simp: Let_def)

lemma findIndex_none: "findIndex P xs = - 1 \<longleftrightarrow> (\<forall>x\<in>set xs. \<not> P x)"
proof (induction xs)
  case Nil
  show ?case by simp
next
  case (Cons x xs)
  have "findIndex P xs + 1 \<noteq> - 1" using findIndex_ge[of P xs] by arith
  with Cons show ?case by (auto simp: Let_def)
qed

lemma findIndex_some:
  "findIndex P xs \<noteq> - 1 \<Longrightarrow>
     0 \<le> findIndex P xs \<and> nat (findIndex P xs) < length xs \<and> P (xs ! nat (findIndex P xs))"
proof (induction xs)
  case Nil
  then show ?case by simp
next
  case (Cons x xs)
  show ?case
  proof (cases "P x")
    case True
    then show ?thesis by simp
  next
    case False
    with Cons.prems have ne: "findIndex P xs \<noteq> - 1" by (auto simp: Let_def)
    from Cons.IH[OF ne] have ih: "0 \<le> findIndex P xs" "nat (findIndex P xs) < length xs"
      "P (xs ! nat (findIndex P xs))" by auto
    have "nat (findIndex P xs + 1) = Suc (nat (findIndex P xs))" using ih(1) by simp
    with False ne ih show ?thesis by (simp add: Let_def)
  qed
qed

lemma getBlock_truthy:
  "truthy (getBlock doc bid) \<longleftrightarrow> (\<exists>block\<in>set (blocks (article doc)). has_id bid block)"
proof (cases "find (has_id bid) (blocks (article doc))")
  case None
  then have "\<forall>block\<in>set (blocks (article doc)). \<not> has_id bid block"
    by (simp add: find_None_iff)
  with None show ?thesis by (simp add: getBlock_def js_or_def)
next
  case (Some block)
  then have "block \<in> set (blocks (article doc)) \<and> has_id bid block"
    by (auto simp: find_Some_iff)
  with Some show ?thesis by (auto simp: getBlock_def js_or_def)
qed

lemma strict_eq_to_string: "strict_eq a b \<Longrightarrow> \<exists>s. to_string b = Inr s"
  by (cases a; cases b) simp_all

text \<open>
  Claim C5. When the block data carries the id of a stored block, \<open>addBlock\<close> raises the
  duplicate-id error, whose message quotes that id, and the document is as before. Whatever
  error \<open>addBlock\<close> raises, the document is as before: nothing is appended.
\<close>

theorem addBlock_duplicate_id:
  "(\<not> nullish blockData \<and>
    (\<exists>block\<in>set (blocks (article doc)).
        strict_eq (get_prop (JObj block) ''id'') (get_prop blockData ''id'')) \<longrightarrow>
      (\<exists>i. to_string (get_prop blockData ''id'') = Inr i \<and>
           addBlock doc blockData = (Inl (DuplicateIdError i), doc))) \<and>
   (\<forall>e doc'. addBlock doc blockData = (Inl e, doc') \<longrightarrow> doc' = doc)"
proof (intro conjI impI allI)
  assume a: "\<not> nullish blockData \<and>
    (\<exists>block\<in>set (blocks (article doc)).
        strict_eq (get_prop (JObj block) ''id'') (get_prop blockData ''id''))"
  then obtain block where b: "block \<in> set (blocks (article doc))"
    "strict_eq (get_prop (JObj block) ''id'') (get_prop blockData ''id'')" by blast
  then have t: "truthy (getBlock doc (get_prop blockData ''id''))"
    unfolding getBlock_truthy has_id_def by blast
  from strict_eq_to_string[OF b(2)] obtain i where i: "to_string (get_prop blockData ''id'') = Inr i"
    by blast
  show "\<exists>i. to_string (get_prop blockData ''id'') = Inr i \<and>
           addBlock doc blockData = (Inl (DuplicateIdError i), doc)"
    using a t i by (simp add: addBlock_def try_bind_def)
next
  fix e doc'
  assume "addBlock doc blockData = (Inl e, doc')"
  then show "doc' = doc"
    by (auto simp: addBlock_def split: if_splits sum.splits)
qed

theorem addBlock_duplicate_id_witness:
  "addBlock ex3
     (JObj [(''id'', JStr ''a''), (''type'', JStr ''heading''), (''level'', js_int 2),
            (''content'', JStr ''Section title'')]) =
     (Inl (DuplicateIdError ''a''), ex3) \<and>
   message (DuplicateIdError ''a'') = ''Block with ID '' @ [CHR 0x22] @ ''a'' @ [CHR 0x22] @ '' already exists'' \<and>
   addBlock ex3 (JObj [(''id'', JStr ''d''), (''type'', JStr ''bogus'')]) =
     (Inl (InvalidTypeError ''bogus''), ex3)"
  using addBlock_duplicate_id
      [of "JObj [(''id'', JStr ''a''), (''type'', JStr ''heading''), (''level'', js_int 2),
            (''content'', JStr ''Section title'')]" ex3]
    addBlock_duplicate_id [of "JObj [(''id'', JStr ''d''), (''type'', JStr ''bogus'')]" ex3]
  by (simp add: ex3_def addBlock_def getBlock_def has_id_def js_or_def try_bind_def Block_def
      ALLOWED_TYPES_def)

text \<open>
  Claim C10. When the \<open>blocks\<close> option is no array (a string, a number, a plain object,
  \<open>null\<close>), the constructor raises nothing and the new document has no blocks.
\<close>

theorem constructor_ignores_non_array_blocks:
  "\<not> nullish options \<and> \<not> isArray (get_prop options ''blocks'') \<longrightarrow>
     new_BlockDocDocument options =
       Inr \<lparr>article = \<lparr>title = get_prop options ''title'',
                         metadata = default_to (get_prop options ''metadata'') (JObj []),
                         blocks = []\<rparr>\<rparr>"
  by (simp add: new_BlockDocDocument_def default_to_def Let_def)

theorem constructor_ignores_non_array_blocks_witness:
  "new_BlockDocDocument (JObj [(''title'', JStr ''T''), (''blocks'', JStr ''not-an-array'')]) =
     Inr \<lparr>article = \<lparr>title = JStr ''T'', metadata = JObj [], blocks = []\<rparr>\<rparr> \<and>
   new_BlockDocDocument
       (JObj [(''title'', JStr ''T''), (''blocks'', JObj [(''id'', JStr ''a'')])]) =
     Inr \<lparr>article = \<lparr>title = JStr ''T'', metadata = JObj [], blocks = []\<rparr>\<rparr> \<and>
   new_BlockDocDocument (JObj [(''title'', JStr ''T''), (''blocks'', js_int 7)]) =
     Inr \<lparr>article = \<lparr>title = JStr ''T'', metadata = JObj [], blocks = []\<rparr>\<rparr>"
  using
    constructor_ignores_non_array_blocks
      [of "JObj [(''title'', JStr ''T''), (''blocks'', JStr ''not-an-array'')]"]
    constructor_ignores_non_array_blocks
      [of "JObj [(''title'', JStr ''T''), (''blocks'', JObj [(''id'', JStr ''a'')])]"]
    constructor_ignores_non_array_blocks
      [of "JObj [(''title'', JStr ''T''), (''blocks'', js_int 7)]"]
  by (simp add: default_to_def js_int_def)

lemma splice_remove_one:
  assumes "i < length xs"
  shows "splice xs (int i) 1 [] = (take i xs @ drop (Suc i) xs, [xs ! i])"
proof -
  have a: "nat (int i + 1) = Suc i" by simp
  have b: "min 1 (int (length xs) - int i) = 1" using assms by simp
  have c: "take (Suc 0) (drop i xs) = [xs ! i]"
    using assms by (simp add: take_Suc hd_drop_conv_nth)
  show ?thesis
    using assms by (simp add: splice_def Let_def a b c)
qed

lemma splice_insert_one:
  "p \<le> length ys \<Longrightarrow> splice ys (int p) 0 [b] = (take p ys @ b # drop p ys, [])"
  by (simp add: splice_def Let_def min_def)

lemma insert_at_props:
  assumes "p \<le> length ys"
  shows "(take p ys @ x # drop p ys) ! p = x"
    and "take p (take p ys @ x # drop p ys) @ drop (Suc p) (take p ys @ x # drop p ys) = ys"
    and "length (take p ys @ x # drop p ys) = Suc (length ys)"
  using assms by (simp_all add: nth_append min_def)

section \<open>Properties of block construction\<close>

lemma copy_required_Inl:
  "copy_required data ty ps this = Inl e \<longleftrightarrow>
     (\<exists>p. find (\<lambda>p. get_prop data p = JUndefined) ps = Some p \<and>
          e = MissingRequiredFieldError ty p)"
  by (induction ps arbitrary: this) auto

lemma copy_required_Inr:
  "(\<exists>this'. copy_required data ty ps this = Inr this') \<longleftrightarrow>
     (\<forall>p\<in>set ps. get_prop data p \<noteq> JUndefined)"
  by (induction ps arbitrary: this) auto

lemma copy_required_Inr_find:
  "copy_required data ty ps this = Inr this' \<Longrightarrow>
     find (\<lambda>p. get_prop data p = JUndefined) ps = None"
  by (induction ps arbitrary: this) (auto split: if_splits)

lemma array_includes_string:
  "array_includes xs v \<longleftrightarrow> (\<exists>s. v = JStr s \<and> s \<in> set xs)"
  by (cases v) auto

lemma allowed_type_truthy: "array_includes ALLOWED_TYPES v \<Longrightarrow> truthy v"
  by (auto simp: array_includes_string ALLOWED_TYPES_def)

lemma Block_invalid_type:
  assumes "truthy (get_prop data ''id'')"
    and "\<not> array_includes ALLOWED_TYPES (get_prop data ''type'')"
  shows "Block data = try_bind (to_string (get_prop data ''type'')) (\<lambda>t. Inl (InvalidTypeError t))"
proof -
  have "\<not> nullish data" using assms(1) by (cases data) auto
  then show ?thesis using assms by (simp add: Block_def)
qed

lemma Block_valid_type:
  assumes "truthy (get_prop data ''id'')"
    and "get_prop data ''type'' = JStr T" and "T \<in> set ALLOWED_TYPES"
  shows "Block data =
     try_bind
       (copy_required data T (requiredProps T)
          [(''id'', get_prop data ''id''), (''type'', JStr T),
           (''content'', js_or (get_prop data ''content'') (JStr ''''))])
       (\<lambda>this. Inr (copy_additional data (keys data) this))"
proof -
  have "\<not> nullish data" using assms(1) by (cases data) auto
  moreover have "truthy (JStr T)" using assms(3) by (auto simp: ALLOWED_TYPES_def)
  ultimately show ?thesis using assms by (simp add: Block_def)
qed

text \<open>
  Claim C8. For block data with a truthy id, the constructor raises the invalid-type error
  exactly when \<open>type\<close> is absent or not one of the eight allowed strings, and the message
  lists the eight. For an allowed type it raises the missing-field error exactly when a
  required property of that type is \<open>undefined\<close> in the data, naming the first such property
  in the order of the table; otherwise construction succeeds. An empty string is not
  \<open>undefined\<close>, so \<open>language: ""\<close> passes.
\<close>

theorem Block_validation:
  "(truthy (get_prop data ''id'') \<longrightarrow>
      (\<forall>t. to_string (get_prop data ''type'') = Inr t \<longrightarrow>
         (Block data = Inl (InvalidTypeError t) \<longleftrightarrow>
            \<not> array_includes ALLOWED_TYPES (get_prop data ''type''))) \<and>
      (\<forall>T. get_prop data ''type'' = JStr T \<and> T \<in> set ALLOWED_TYPES \<longrightarrow>
         (\<forall>p. Block data = Inl (MissingRequiredFieldError T p) \<longleftrightarrow>
               find (\<lambda>p. get_prop data p = JUndefined) (requiredProps T) = Some p) \<and>
         ((\<exists>block. Block data = Inr block) \<longleftrightarrow>
            (\<forall>p\<in>set (requiredProps T). get_prop data p \<noteq> JUndefined)))) \<and>
   message (InvalidTypeError t') =
     ''Invalid block type: '' @ t' @
     ''. Allowed types are: text, heading, image, code, list, quote, embed, divider'' \<and>
   map requiredProps ALLOWED_TYPES =
     [[], [''level''], [''url'', ''alt''], [''language''], [''items'', ''listType''], [], [], []]"
proof (intro conjI impI allI)
  fix t
  assume id: "truthy (get_prop data ''id'')" and t: "to_string (get_prop data ''type'') = Inr t"
  show "Block data = Inl (InvalidTypeError t) \<longleftrightarrow>
            \<not> array_includes ALLOWED_TYPES (get_prop data ''type'')"
  proof (cases "array_includes ALLOWED_TYPES (get_prop data ''type'')")
    case False
    then show ?thesis using Block_invalid_type[OF id False] t by (simp add: try_bind_def)
  next
    case True
    then obtain T where T: "get_prop data ''type'' = JStr T" "T \<in> set ALLOWED_TYPES"
      by (auto simp: array_includes_string)
    have "Block data \<noteq> Inl (InvalidTypeError t)"
      unfolding Block_valid_type[OF id T]
      by (auto simp: try_bind_def copy_required_Inl split: sum.splits)
    with True show ?thesis by simp
  qed
next
  fix T p
  assume id: "truthy (get_prop data ''id'')"
    and T: "get_prop data ''type'' = JStr T \<and> T \<in> set ALLOWED_TYPES"
  show "Block data = Inl (MissingRequiredFieldError T p) \<longleftrightarrow>
               find (\<lambda>p. get_prop data p = JUndefined) (requiredProps T) = Some p"
  proof (cases "copy_required data T (requiredProps T)
          [(''id'', get_prop data ''id''), (''type'', JStr T),
           (''content'', js_or (get_prop data ''content'') (JStr ''''))]")
    case (Inl e)
    then show ?thesis
      using Block_valid_type[OF id] T copy_required_Inl[THEN iffD1, OF Inl]
      by (auto simp: try_bind_def)
  next
    case (Inr this)
    then show ?thesis
      using Block_valid_type[OF id] T copy_required_Inr_find[OF Inr]
      by (auto simp: try_bind_def)
  qed
next
  fix T
  assume id: "truthy (get_prop data ''id'')"
    and T: "get_prop data ''type'' = JStr T \<and> T \<in> set ALLOWED_TYPES"
  have "(\<exists>block. Block data = Inr block) \<longleftrightarrow>
      (\<exists>this. copy_required data T (requiredProps T)
          [(''id'', get_prop data ''id''), (''type'', JStr T),
           (''content'', js_or (get_prop data ''content'') (JStr ''''))] = Inr this)"
    using Block_valid_type[OF id] T by (auto simp: try_bind_def split: sum.splits)
  then show "(\<exists>block. Block data = Inr block) \<longleftrightarrow>
            (\<forall>p\<in>set (requiredProps T). get_prop data p \<noteq> JUndefined)"
    by (simp only: copy_required_Inr)
next
  show "message (InvalidTypeError t') =
     ''Invalid block type: '' @ t' @
     ''. Allowed types are: text, heading, image, code, list, quote, embed, divider''"
    by (simp add: ALLOWED_TYPES_def)
next
  show "map requiredProps ALLOWED_TYPES =
     [[], [''level''], [''url'', ''alt''], [''language''], [''items'', ''listType''], [], [], []]"
    by (simp add: ALLOWED_TYPES_def requiredProps_def TYPE_REQUIREMENTS_def)
qed

theorem Block_validation_witness:
  "Block (JObj [(''id'', JStr ''c''), (''type'', JStr ''code''), (''language'', JStr '''')]) =
     Inr [(''id'', JStr ''c''), (''type'', JStr ''code''), (''content'', JStr ''''),
          (''language'', JStr '''')] \<and>
   Block (JObj [(''id'', JStr ''c''), (''type'', JStr ''code'')]) =
     Inl (MissingRequiredFieldError ''code'' ''language'') \<and>
   Block (JObj [(''id'', JStr ''c''), (''type'', JStr ''video'')]) =
     Inl (InvalidTypeError ''video'') \<and>
   Block (JObj [(''id'', JStr ''c'')]) = Inl (InvalidTypeError ''undefined'')"
  using
    Block_validation
      [of "JObj [(''id'', JStr ''c''), (''type'', JStr ''code''), (''language'', JStr '''')]"]
    Block_validation [of "JObj [(''id'', JStr ''c''), (''type'', JStr ''code'')]"]
    Block_validation [of "JObj [(''id'', JStr ''c''), (''type'', JStr ''video'')]"]
    Block_validation [of "JObj [(''id'', JStr ''c'')]"]
  by (simp add: Block_def ALLOWED_TYPES_def requiredProps_def TYPE_REQUIREMENTS_def
      try_bind_def js_or_def this_undefined_def assign_def INHERITED_def)

section \<open>Properties of the heading level\<close>

lemma below_ten: "(d::nat) < 10 \<Longrightarrow>
    d = 0 \<or> d = 1 \<or> d = 2 \<or> d = 3 \<or> d = 4 \<or> d = 5 \<or> d = 6 \<or> d = 7 \<or> d = 8 \<or> d = 9"
  by arith

lemma digit_value_digit_char: "d < 10 \<Longrightarrow> digit_value (digit_char d) = Some d"
  by (drule below_ten) (auto simp: digit_char_def digit_value_def)

lemma is_digit_digit_char: "d < 10 \<Longrightarrow> is_digit 10 (digit_char d)"
  by (simp add: is_digit_def digit_value_digit_char)

lemma digit_char_plain:
  "d < 10 \<Longrightarrow> digit_char d \<notin> set [CHR ''-'', CHR ''+'', CHR ''x'', CHR ''X'', CHR ''.'',
      CHR 0x09, CHR 0x0A, CHR 0x0B, CHR 0x0C, CHR 0x0D, CHR 0x20, CHR 0xC2, CHR 0xE1, CHR 0xE2,
      CHR 0xE3, CHR 0xEF]"
  by (drule below_ten) (auto simp: digit_char_def)

lemma digits_nonempty: "digits n \<noteq> []"
  by (subst digits.simps) simp

lemma digits_are_digits: "c \<in> set (digits n) \<Longrightarrow> \<exists>d<10. c = digit_char d"
proof (induction n rule: digits.induct)
  case (1 n)
  show ?case
  proof (cases "n < 10")
    case True
    with "1.prems" show ?thesis by (subst (asm) digits.simps) auto
  next
    case False
    from "1.prems" False have "c \<in> set (digits (n div 10)) \<or> c = digit_char (n mod 10)"
      by (subst (asm) digits.simps) auto
    then show ?thesis
    proof
      assume "c \<in> set (digits (n div 10))"
      from "1.IH"[OF False this] show ?thesis .
    next
      assume "c = digit_char (n mod 10)"
      moreover have "n mod 10 < 10" by simp
      ultimately show ?thesis by blast
    qed
  qed
qed

lemma digits_no_x: "CHR ''x'' \<notin> set (digits n) \<and> CHR ''X'' \<notin> set (digits n)"
proof -
  have "\<And>c. c \<in> set (digits n) \<Longrightarrow> c \<noteq> CHR ''x'' \<and> c \<noteq> CHR ''X''"
  proof -
    fix c assume "c \<in> set (digits n)"
    from digits_are_digits[OF this] obtain d where d: "d < 10" "c = digit_char d" by blast
    from digit_char_plain[OF d(1)] d(2) show "c \<noteq> CHR ''x'' \<and> c \<noteq> CHR ''X''" by auto
  qed
  then show ?thesis by blast
qed

lemma digits_value_snoc:
  "digits_value r (z @ [c]) =
     digits_value r z * r + (case digit_value c of Some d \<Rightarrow> d | None \<Rightarrow> 0)"
  by (simp add: digits_value_def)

lemma digits_value_digits: "digits_value 10 (digits n) = n"
proof (induction n rule: digits.induct)
  case (1 n)
  show ?case
  proof (cases "n < 10")
    case True
    then show ?thesis
      by (subst digits.simps) (simp add: digits_value_def digit_value_digit_char)
  next
    case False
    have "digits_value 10 (digits n) =
        digits_value 10 (digits (n div 10)) * 10 + n mod 10"
      using False by (subst digits.simps) (simp add: digits_value_snoc digit_value_digit_char)
    with "1.IH"[OF False] show ?thesis by simp
  qed
qed

lemma takeWhile_digits: "takeWhile (is_digit 10) (digits n) = digits n"
  using digits_are_digits is_digit_digit_char by (fastforce simp: takeWhile_eq_all_conv)

lemma hd_digits: "\<exists>d<10. \<exists>rest. digits n = digit_char d # rest"
proof -
  obtain c rest where cr: "digits n = c # rest" using digits_nonempty[of n] by (cases "digits n") auto
  then have "c \<in> set (digits n)" by simp
  from digits_are_digits[OF this] cr show ?thesis by blast
qed

lemma white_space_heads:
  "w \<in> set white_space \<Longrightarrow>
     w \<noteq> [] \<and> hd w \<in> set [CHR 0x09, CHR 0x0A, CHR 0x0B, CHR 0x0C, CHR 0x0D, CHR 0x20, CHR 0xC2,
             CHR 0xE1, CHR 0xE2, CHR 0xE3, CHR 0xEF]"
  unfolding white_space_def by (elim disjE | simp)+

lemma trim_start_plain:
  assumes "c \<notin> set [CHR 0x09, CHR 0x0A, CHR 0x0B, CHR 0x0C, CHR 0x0D, CHR 0x20, CHR 0xC2,
             CHR 0xE1, CHR 0xE2, CHR 0xE3, CHR 0xEF]"
  shows "trim_start (c # cs) = c # cs"
proof -
  have "\<not> prefix w (c # cs)" if "w \<in> set white_space" for w
  proof
    assume p: "prefix w (c # cs)"
    from white_space_heads[OF that] have w: "w \<noteq> []" and h: "hd w \<in> set [CHR 0x09, CHR 0x0A,
        CHR 0x0B, CHR 0x0C, CHR 0x0D, CHR 0x20, CHR 0xC2, CHR 0xE1, CHR 0xE2, CHR 0xE3, CHR 0xEF]"
      by blast+
    from p w have "hd w = c" by (cases w) (auto simp: prefix_def)
    with h assms show False by blast
  qed
  then have "find (\<lambda>w. prefix w (c # cs)) white_space = None"
    by (simp add: find_None_iff)
  then show ?thesis by (simp only: trim_start.simps option.case)
qed

lemma dot_no_digit: "\<not> is_digit 10 (CHR ''.'')" "\<not> is_digit 10 (CHR ''e'')"
  by (simp_all add: is_digit_def digit_value_def)

lemma takeWhile_digits_stop:
  assumes "\<forall>c\<in>set z. \<exists>d<10. c = digit_char d" and "rest = [] \<or> \<not> is_digit 10 (hd rest)"
  shows "takeWhile (is_digit 10) (z @ rest) = z"
proof -
  have all: "is_digit 10 c" if "c \<in> set z" for c
  proof -
    from assms(1) that obtain d where "d < 10" "c = digit_char d" by blast
    then show ?thesis by (simp add: is_digit_digit_char)
  qed
  have r: "takeWhile (is_digit 10) rest = []"
  proof (cases rest)
    case Nil
    then show ?thesis by simp
  next
    case (Cons c cs)
    with assms(2) have "\<not> is_digit 10 c" by simp
    then show ?thesis unfolding Cons by simp
  qed
  have "takeWhile (is_digit 10) (z @ rest) = z @ takeWhile (is_digit 10) rest"
    by (rule takeWhile_append2) (rule all)
  then show ?thesis using r by simp
qed

lemma takeWhile_digits_dot:
  assumes "\<forall>c\<in>set z. \<exists>d<10. c = digit_char d"
    and "rest = [] \<or> hd rest = CHR ''.'' \<or> hd rest = CHR ''e''"
  shows "takeWhile (is_digit 10) (z @ rest) = z"
  using assms(2) dot_no_digit by (intro takeWhile_digits_stop[OF assms(1)]) auto

lemma parseInt_prefix:
  assumes z: "z \<noteq> []" "\<forall>c\<in>set z. \<exists>d<10. c = digit_char d"
    and rest: "rest = [] \<or>
        (\<not> is_digit 10 (hd rest) \<and> hd rest \<noteq> CHR ''x'' \<and> hd rest \<noteq> CHR ''X'')"
  shows "parseInt (z @ rest) = Some (int (digits_value 10 z))"
    and "parseInt (''-'' @ z @ rest) = Some (- int (digits_value 10 z))"
    and "parseInt (''+'' @ z @ rest) = Some (int (digits_value 10 z))"
proof -
  obtain c cs where c: "z = c # cs" using z(1) by (cases z) auto
  then obtain d where d: "d < 10" "c = digit_char d" using z(2) by auto
  note plainc = digit_char_plain[OF d(1), folded d(2)]
  have plain: "trim_start (z @ rest) = z @ rest"
    using trim_start_plain[of c "cs @ rest"] plainc c by auto
  have plain': "trim_start (''-'' @ z @ rest) = ''-'' @ z @ rest"
    using trim_start_plain[of "CHR ''-''" "z @ rest"] by simp
  have plain'': "trim_start (''+'' @ z @ rest) = ''+'' @ z @ rest"
    using trim_start_plain[of "CHR ''+''" "z @ rest"] by simp
  have nosign: "\<not> prefix ''-'' (z @ rest)" "\<not> prefix ''+'' (z @ rest)"
    using plainc c by auto
  have second: "\<not> prefix [c, CHR ''x''] (z @ rest) \<and> \<not> prefix [c, CHR ''X''] (z @ rest)"
  proof (cases cs)
    case Nil
    then show ?thesis using c rest by (cases rest) auto
  next
    case (Cons c' cs')
    then obtain d' where "d' < 10" "c' = digit_char d'" using z(2) c by auto
    then have "c' \<noteq> CHR ''x'' \<and> c' \<noteq> CHR ''X''" using digit_char_plain[of d'] by auto
    then show ?thesis using c Cons by auto
  qed
  have nohex: "\<not> prefix ''0x'' (z @ rest)" "\<not> prefix ''0X'' (z @ rest)"
    using second c by (auto simp: prefix_def)
  have tw: "takeWhile (is_digit 10) (z @ rest) = z"
    using rest by (intro takeWhile_digits_stop[OF z(2)]) auto
  show "parseInt (z @ rest) = Some (int (digits_value 10 z))"
    unfolding parseInt_def Let_def plain
    using nosign nohex z(1) by (simp add: tw)
  show "parseInt (''-'' @ z @ rest) = Some (- int (digits_value 10 z))"
    unfolding parseInt_def Let_def plain'
    using nohex z(1) by (simp add: tw)
  show "parseInt (''+'' @ z @ rest) = Some (int (digits_value 10 z))"
    unfolding parseInt_def Let_def plain''
    using nohex z(1) by (simp add: tw)
qed

lemma parseInt_decimal:
  assumes z: "z \<noteq> []" "\<forall>c\<in>set z. \<exists>d<10. c = digit_char d"
    and rest: "rest = [] \<or> hd rest = CHR ''.'' \<or> hd rest = CHR ''e''"
  shows "parseInt (z @ rest) = Some (int (digits_value 10 z))"
    and "parseInt (''-'' @ z @ rest) = Some (- int (digits_value 10 z))"
proof -
  have "rest = [] \<or>
        (\<not> is_digit 10 (hd rest) \<and> hd rest \<noteq> CHR ''x'' \<and> hd rest \<noteq> CHR ''X'')"
    using rest dot_no_digit by auto
  from parseInt_prefix(1,2)[OF z this]
  show "parseInt (z @ rest) = Some (int (digits_value 10 z))"
    and "parseInt (''-'' @ z @ rest) = Some (- int (digits_value 10 z))" .
qed

lemma parseInt_digits: "parseInt (digits n) = Some (int n)"
  using parseInt_decimal(1)[of "digits n" "[]"] digits_nonempty digits_are_digits
  by (simp add: digits_value_digits)

lemma parseInt_minus_digits: "parseInt (''-'' @ digits n) = Some (- int n)"
  using parseInt_decimal(2)[of "digits n" "[]"] digits_nonempty digits_are_digits
  by (simp add: digits_value_digits)

lemma parseInt_int_to_string: "parseInt (int_to_string i) = Some i"
  using parseInt_digits[of "nat i"] parseInt_minus_digits[of "nat (- i)"]
  by (simp add: int_to_string_def)

lemma length_digits_bound: "n < 10 ^ m \<Longrightarrow> 0 < m \<Longrightarrow> length (digits n) \<le> m"
proof (induction n arbitrary: m rule: digits.induct)
  case (1 n)
  show ?case
  proof (cases "n < 10")
    case True
    then show ?thesis using "1.prems" by (subst digits.simps) simp
  next
    case False
    then obtain m' where m': "m = Suc m'" using "1.prems" by (cases m) auto
    have "m' \<noteq> 0" using False "1.prems" m' by (cases m') auto
    moreover have "n div 10 < 10 ^ m'" using "1.prems"(1) m' by (simp add: less_mult_imp_div_less mult.commute)
    ultimately have "length (digits (n div 10)) \<le> m'" using "1.IH"[OF False, of m'] by simp
    then show ?thesis using False m' by (subst digits.simps) simp
  qed
qed

lemma to_string_js_int:
  assumes "\<bar>i\<bar> < 10 ^ 21"
  shows "to_string (js_int i) = Inr (int_to_string i)"
proof -
  have len: "int (length (digits (nat \<bar>i\<bar>))) \<le> 21"
    using length_digits_bound[of "nat \<bar>i\<bar>" 21] assms by simp
  have zero: "digits 0 = ''0''" by (subst digits.simps) (simp add: digit_char_def)
  have "dec_to_string (nat \<bar>i\<bar>) (int (length (digits (nat \<bar>i\<bar>)))) = digits (nat \<bar>i\<bar>)"
    using len by (simp add: dec_to_string_def Let_def)
  then show ?thesis
    using zero by (auto simp: js_int_def int_to_string_def)
qed

lemma validLevel_js_int:
  assumes "\<bar>i\<bar> < 10 ^ 21"
  shows "validLevel (js_int i) = Inr (min (max (if i = 0 then 2 else i) 1) 6)"
  by (simp add: validLevel_def to_string_js_int[OF assms] try_bind_def parseInt_int_to_string)

lemma digits_value_zeros:
  "digits_value 10 (z @ replicate m (CHR ''0'')) = digits_value 10 z * 10 ^ m"
proof (induction m)
  case 0
  show ?case by simp
next
  case (Suc m)
  have "z @ replicate (Suc m) (CHR ''0'') = (z @ replicate m (CHR ''0'')) @ [CHR ''0'']"
    by (simp add: replicate_append_same)
  then have "digits_value 10 (z @ replicate (Suc m) (CHR ''0'')) =
      digits_value 10 (z @ replicate m (CHR ''0'')) * 10
        + (case digit_value (CHR ''0'') of Some d \<Rightarrow> d | None \<Rightarrow> 0)"
    by (simp only: digits_value_snoc)
  also have "digit_value (CHR ''0'') = Some 0"
    using digit_value_digit_char[of 0] by (simp add: digit_char_def)
  finally show ?case using Suc by simp
qed

lemma length_digits_step:
  "\<not> n < 10 \<Longrightarrow> length (digits n) = Suc (length (digits (n div 10)))"
  by (subst digits.simps) simp

lemma digits_step: "\<not> n < 10 \<Longrightarrow> digits n = digits (n div 10) @ [digit_char (n mod 10)]"
  by (subst digits.simps) simp

lemma digits_small: "n < 10 \<Longrightarrow> digits n = [digit_char n]"
  by (subst digits.simps) simp

lemma digits_value_take:
  "m \<le> length (digits n) \<Longrightarrow>
     digits_value 10 (take m (digits n)) = n div 10 ^ (length (digits n) - m)"
proof (induction n arbitrary: m rule: digits.induct)
  case (1 n)
  show ?case
  proof (cases "n < 10")
    case True
    from "1.prems" True have "m = 0 \<or> m = 1" by (auto simp: digits_small)
    then show ?thesis
      using True by (auto simp: digits_small digits_value_def digit_value_digit_char)
  next
    case False
    note len = length_digits_step[OF False]
    show ?thesis
    proof (cases "m = length (digits n)")
      case True
      then show ?thesis by (simp add: digits_value_digits)
    next
      case False2: False
      with "1.prems" len have m: "m \<le> length (digits (n div 10))" by simp
      have "take m (digits n) = take m (digits (n div 10))"
        using m by (simp add: digits_step[OF False])
      then have "digits_value 10 (take m (digits n)) =
          (n div 10) div 10 ^ (length (digits (n div 10)) - m)"
        using "1.IH"[OF False m] by simp
      also have "\<dots> = n div (10 * 10 ^ (length (digits (n div 10)) - m))"
        by (simp add: div_mult2_eq)
      also have "10 * 10 ^ (length (digits (n div 10)) - m) = (10::nat) ^ (length (digits n) - m)"
        using m len by (simp add: Suc_diff_le)
      finally show ?thesis .
    qed
  qed
qed

lemma digits_upper: "n < 10 ^ length (digits n)"
proof (induction n rule: digits.induct)
  case (1 n)
  show ?case
  proof (cases "n < 10")
    case True
    then show ?thesis by (simp add: digits_small)
  next
    case False
    from "1.IH"[OF False] have "n div 10 < 10 ^ length (digits (n div 10))" .
    then have "n < 10 * 10 ^ length (digits (n div 10))"
      by (simp add: div_less_iff_less_mult mult.commute)
    then show ?thesis by (simp add: length_digits_step[OF False])
  qed
qed

lemma take_digits_are_digits:
  "\<forall>c\<in>set (take m (digits s)). \<exists>d<10. c = digit_char d"
  using digits_are_digits by (meson in_set_takeD)

lemma zero_digit: "digits 0 = ''0''"
  by (simp add: digits_small digit_char_def)

text \<open>The integer that \<open>parseInt\<close> reads from the string of a number in decimal notation.\<close>

lemma parseInt_dec_to_string:
  assumes s: "s \<noteq> 0" and n: "- 6 < n" "n \<le> 21"
  shows "parseInt (dec_to_string s n) = Some (integer_part (Dec False s n))"
    and "parseInt (''-'' @ dec_to_string s n) = Some (integer_part (Dec True s n))"
proof -
  define k where "k = length (digits s)"
  have kpos: "0 < k" using digits_nonempty[of s] by (simp add: k_def)
  consider (whole) "int k \<le> n" | (frac) "0 < n" "n < int k" | (small) "n \<le> 0" by linarith
  then have "parseInt (dec_to_string s n) = Some (integer_part (Dec False s n)) \<and>
    parseInt (''-'' @ dec_to_string s n) = Some (integer_part (Dec True s n))"
  proof cases
    case whole
    let ?z = "digits s @ replicate (nat (n - int k)) (CHR ''0'')"
    have str: "dec_to_string s n = ?z @ []"
      using whole n by (simp add: dec_to_string_def Let_def k_def)
    have zd: "\<forall>c\<in>set ?z. \<exists>d<10. c = digit_char d"
    proof
      fix c assume "c \<in> set ?z"
      then have "c \<in> set (digits s) \<or> c = CHR ''0''" by auto
      then show "\<exists>d<10. c = digit_char d"
      proof
        assume "c \<in> set (digits s)" then show ?thesis by (rule digits_are_digits)
      next
        assume "c = CHR ''0''"
        then have "c = digit_char 0" by (simp add: digit_char_def)
        moreover have "(0::nat) < 10" by simp
        ultimately show ?thesis by (intro exI[of _ 0]) simp
      qed
    qed
    have zne: "?z \<noteq> []" using digits_nonempty by simp
    have val: "digits_value 10 ?z = s * 10 ^ nat (n - int k)"
      by (simp add: digits_value_zeros digits_value_digits)
    have ip: "(s * 10 ^ nat (n - int k)) div 10 ^ nat (int k - n) = s * 10 ^ nat (n - int k)"
      using whole by simp
    show ?thesis
      unfolding str
      using parseInt_decimal[OF zne zd, of "[]"] val ip by (simp add: Let_def k_def)
  next
    case frac
    let ?z = "take (nat n) (digits s)"
    let ?rest = "''.'' @ drop (nat n) (digits s)"
    have str: "dec_to_string s n = ?z @ ?rest"
      using frac n by (simp add: dec_to_string_def Let_def k_def)
    have zne: "?z \<noteq> []" using frac digits_nonempty[of s] by simp
    have val: "digits_value 10 ?z = s div 10 ^ (k - nat n)"
      using digits_value_take[of "nat n" s] frac by (simp add: k_def)
    have e1: "nat (n - int k) = 0" using frac by simp
    have e2: "nat (int k - n) = k - nat n" using frac by linarith
    show ?thesis
      unfolding str
      using parseInt_decimal[OF zne take_digits_are_digits, of ?rest] val e1 e2
      by (simp add: Let_def k_def)
  next
    case small
    let ?rest = "''.'' @ replicate (nat (- n)) (CHR ''0'') @ digits s"
    have nk: "\<not> int (length (digits s)) \<le> n"
      using small kpos unfolding k_def by linarith
    have str: "dec_to_string s n = ''0'' @ ?rest"
      using small n nk by (simp add: dec_to_string_def Let_def)
    have zd: "\<forall>c\<in>set ''0''. \<exists>d<10. c = digit_char d"
      using zero_digit digits_are_digits[of _ 0] by simp
    have val: "digits_value 10 ''0'' = 0"
      using digits_value_digits[of 0] by (simp add: zero_digit)
    have "s < 10 ^ k" using digits_upper[of s] by (simp add: k_def)
    also have "(10::nat) ^ k \<le> 10 ^ nat (int k - n)"
      using small by (intro power_increasing) auto
    finally have ip: "s div 10 ^ nat (int k - n) = 0" by simp
    have e1: "nat (n - int k) = 0" using small by simp
    show ?thesis
      unfolding str
      using parseInt_decimal[OF _ zd, of ?rest] val ip e1
      by (simp add: Let_def k_def)
  qed
  then show "parseInt (dec_to_string s n) = Some (integer_part (Dec False s n))"
    and "parseInt (''-'' @ dec_to_string s n) = Some (integer_part (Dec True s n))"
    by simp_all
qed

lemma to_string_Dec:
  "to_string (JNum (Dec neg s n)) =
     Inr (if s = 0 then ''0'' else (if neg then ''-'' else '''') @ dec_to_string s n)"
  by simp

lemma validLevel_decimal:
  assumes "- 6 < n" "n \<le> 21"
  shows "validLevel (JNum (Dec neg s n)) =
     Inr (min (max (if integer_part (Dec neg s n) = 0 then 2 else integer_part (Dec neg s n)) 1) 6)"
proof (cases "s = 0")
  case True
  have "parseInt ''0'' = Some 0" using parseInt_digits[of 0] by (simp add: zero_digit)
  then show ?thesis using True by (simp add: validLevel_def try_bind_def Let_def)
next
  case False
  show ?thesis
    using parseInt_dec_to_string[OF False assms] False
    by (cases neg) (simp_all add: validLevel_def try_bind_def del: integer_part.simps)
qed

lemma validLevel_range: "validLevel level = Inr n \<Longrightarrow> 1 \<le> n \<and> n \<le> 6"
  by (auto simp: validLevel_def try_bind_def split: sum.splits)

lemma int_to_string_level: "1 \<le> n \<Longrightarrow> n \<le> 6 \<Longrightarrow> int_to_string n = [digit_char (nat n)]"
  by (simp add: int_to_string_def digits_small)

lemma parseInt_no_digit:
  assumes "c \<notin> set [CHR 0x09, CHR 0x0A, CHR 0x0B, CHR 0x0C, CHR 0x0D, CHR 0x20, CHR 0xC2,
             CHR 0xE1, CHR 0xE2, CHR 0xE3, CHR 0xEF]"
    and "c \<noteq> CHR ''-''" "c \<noteq> CHR ''+''" "digit_value c = None"
  shows "parseInt (c # cs) = None"
proof -
  have plain: "trim_start (c # cs) = c # cs" using assms(1) by (rule trim_start_plain)
  have "c \<noteq> CHR ''0''" using assms(4) by (auto simp: digit_value_def)
  then show ?thesis
    unfolding parseInt_def Let_def plain
    using assms by (simp add: is_digit_def)
qed

lemma validLevel_undefined: "validLevel JUndefined = Inr 2"
  using parseInt_no_digit[of "CHR ''u''" "''ndefined''"]
  by (simp add: validLevel_def try_bind_def digit_value_def)

lemma validLevel_NaN: "validLevel (JNum NaN) = Inr 2"
  using parseInt_no_digit[of "CHR ''N''" "''aN''"]
  by (simp add: validLevel_def try_bind_def digit_value_def)

lemma digits_lower: "0 < n \<Longrightarrow> 10 ^ (length (digits n) - 1) \<le> n"
proof (induction n rule: digits.induct)
  case (1 n)
  show ?case
  proof (cases "n < 10")
    case True
    then show ?thesis using "1.prems" by (simp add: digits_small)
  next
    case False
    then have pos: "0 < n div 10" by simp
    define m where "m = length (digits (n div 10))"
    have mpos: "0 < m" using digits_nonempty[of "n div 10"] by (simp add: m_def)
    from "1.IH"[OF False pos] have "10 ^ (m - 1) \<le> n div 10" by (simp add: m_def)
    then have "10 * 10 ^ (m - 1) \<le> 10 * (n div 10)" by simp
    also have "\<dots> \<le> n" by simp
    finally have "10 * 10 ^ (m - 1) \<le> n" .
    moreover have "(10::nat) * 10 ^ (m - 1) = 10 ^ m" using mpos by (cases m) simp_all
    ultimately have "10 ^ m \<le> n" by simp
    then show ?thesis using length_digits_step[OF False] by (simp add: m_def)
  qed
qed

lemma leading_digit_range: "0 < s \<Longrightarrow> 1 \<le> leading_digit s \<and> leading_digit s < 10"
proof -
  assume s: "0 < s"
  define k where "k = length (digits s)"
  have kpos: "0 < k" using digits_nonempty[of s] by (simp add: k_def)
  have lo: "10 ^ (k - 1) \<le> s" using digits_lower[OF s] by (simp add: k_def)
  have "s < 10 ^ k" using digits_upper[of s] by (simp add: k_def)
  also have "(10::nat) ^ k = 10 * 10 ^ (k - 1)" using kpos by (cases k) simp_all
  finally have hi: "s < 10 * 10 ^ (k - 1)" .
  have "1 \<le> s div 10 ^ (k - 1)" using lo by (simp add: div_greater_zero_iff Suc_le_eq)
  moreover have "s div 10 ^ (k - 1) < 10" using hi by (simp add: less_mult_imp_div_less)
  ultimately show ?thesis by (simp add: leading_digit_def k_def)
qed

lemma parseInt_exponent:
  assumes s: "s \<noteq> 0" and n: "n \<le> - 6 \<or> 21 < n"
  shows "parseInt (dec_to_string s n) = Some (int (leading_digit s))"
    and "parseInt (''-'' @ dec_to_string s n) = Some (- int (leading_digit s))"
proof -
  define k where "k = length (digits s)"
  define ex where "ex = (if n - 1 < 0 then ''-'' else ''+'') @ digits (nat \<bar>n - 1\<bar>)"
  have kpos: "0 < k" using digits_nonempty[of s] by (simp add: k_def)
  have str: "dec_to_string s n =
      (if k = 1 then digits s @ ''e'' @ ex
       else take 1 (digits s) @ ''.'' @ drop 1 (digits s) @ ''e'' @ ex)"
    using n by (auto simp: dec_to_string_def Let_def k_def ex_def)
  have "parseInt (dec_to_string s n) = Some (int (leading_digit s)) \<and>
    parseInt (''-'' @ dec_to_string s n) = Some (- int (leading_digit s))"
  proof (cases "k = 1")
    case True
    have val: "digits_value 10 (digits s) = leading_digit s"
      using True by (simp add: digits_value_digits leading_digit_def k_def)
    have d: "\<forall>c\<in>set (digits s). \<exists>d<10. c = digit_char d" using digits_are_digits by blast
    show ?thesis
      unfolding str using True parseInt_decimal[OF digits_nonempty d, of "''e'' @ ex"] val
      by simp
  next
    case False
    have zne: "take 1 (digits s) \<noteq> []" using digits_nonempty[of s] by simp
    have "1 \<le> length (digits s)" using digits_nonempty[of s] by (cases "digits s") simp_all
    then have "digits_value 10 (take 1 (digits s)) = s div 10 ^ (length (digits s) - 1)"
      by (rule digits_value_take)
    then have val: "digits_value 10 (take 1 (digits s)) = leading_digit s"
      by (simp add: leading_digit_def)
    show ?thesis
      unfolding str
      using False parseInt_decimal[OF zne take_digits_are_digits,
          of "''.'' @ drop 1 (digits s) @ ''e'' @ ex"] val
      by simp
  qed
  then show "parseInt (dec_to_string s n) = Some (int (leading_digit s))"
    and "parseInt (''-'' @ dec_to_string s n) = Some (- int (leading_digit s))"
    by simp_all
qed

lemma validLevel_exponent:
  assumes s: "s \<noteq> 0" and n: "n \<le> - 6 \<or> 21 < n"
  shows "validLevel (JNum (Dec neg s n)) =
     Inr (if neg then 1 else min (int (leading_digit s)) 6)"
proof -
  from s leading_digit_range[of s] have "1 \<le> leading_digit s" by simp
  then show ?thesis
    using parseInt_exponent[OF s n] s
    by (cases neg) (simp_all add: validLevel_def try_bind_def)
qed

lemma validLevel_zero: "validLevel (JNum (Dec neg 0 n)) = Inr 2"
proof -
  have "parseInt ''0'' = Some 0" using parseInt_digits[of 0] by (simp add: zero_digit)
  then show ?thesis by (simp add: validLevel_def try_bind_def)
qed

lemma parseInt_not_numeric:
  assumes "\<not> is_digit 10 c"
  shows "c \<notin> set [CHR 0x09, CHR 0x0A, CHR 0x0B, CHR 0x0C, CHR 0x0D, CHR 0x20, CHR 0xC2,
             CHR 0xE1, CHR 0xE2, CHR 0xE3, CHR 0xEF, CHR ''-'', CHR ''+'']
         \<Longrightarrow> parseInt (c # cs) = None"
    and "parseInt (CHR ''-'' # c # cs) = None"
    and "parseInt (CHR ''+'' # c # cs) = None"
    and "parseInt [CHR ''-''] = None" and "parseInt [CHR ''+''] = None" and "parseInt [] = None"
proof -
  have c0: "c \<noteq> CHR ''0''" using assms by (auto simp: is_digit_def digit_value_def)
  have m: "trim_start (CHR ''-'' # cs') = CHR ''-'' # cs'" for cs'
    by (rule trim_start_plain) simp
  have p: "trim_start (CHR ''+'' # cs') = CHR ''+'' # cs'" for cs'
    by (rule trim_start_plain) simp
  show "parseInt (CHR ''-'' # c # cs) = None"
    unfolding parseInt_def Let_def m using assms c0 by simp
  show "parseInt (CHR ''+'' # c # cs) = None"
    unfolding parseInt_def Let_def p using assms c0 by simp
  show "parseInt [CHR ''-''] = None" unfolding parseInt_def Let_def m by simp
  show "parseInt [CHR ''+''] = None" unfolding parseInt_def Let_def p by simp
  show "parseInt [] = None" by (simp add: parseInt_def)
  assume plain: "c \<notin> set [CHR 0x09, CHR 0x0A, CHR 0x0B, CHR 0x0C, CHR 0x0D, CHR 0x20, CHR 0xC2,
             CHR 0xE1, CHR 0xE2, CHR 0xE3, CHR 0xEF, CHR ''-'', CHR ''+'']"
  then have t: "trim_start (c # cs) = c # cs" by (intro trim_start_plain) simp
  show "parseInt (c # cs) = None"
    unfolding parseInt_def Let_def t using assms c0 plain by auto
qed

lemma plain_head:
  assumes "c \<notin> set [CHR 0x09, CHR 0x0A, CHR 0x0B, CHR 0x0C, CHR 0x0D, CHR 0x20, CHR 0xC2,
             CHR 0xE1, CHR 0xE2, CHR 0xE3, CHR 0xEF]"
  shows "\<forall>w\<in>set white_space. \<not> prefix w (c # cs)"
proof (intro ballI notI)
  fix w assume w: "w \<in> set white_space" and p: "prefix w (c # cs)"
  from white_space_heads[OF w] have ne: "w \<noteq> []" and h: "hd w \<in> set [CHR 0x09, CHR 0x0A,
      CHR 0x0B, CHR 0x0C, CHR 0x0D, CHR 0x20, CHR 0xC2, CHR 0xE1, CHR 0xE2, CHR 0xE3, CHR 0xEF]"
    by blast+
  from p ne have "hd w = c" by (cases w) (auto simp: prefix_def)
  with h assms show False by blast
qed

lemma parseInt_no_space:
  assumes "\<not> is_digit 10 c" and "c \<noteq> CHR ''-''" "c \<noteq> CHR ''+''"
    and "\<forall>w\<in>set white_space. \<not> prefix w (c # cs)"
  shows "parseInt (c # cs) = None"
proof -
  have c0: "c \<noteq> CHR ''0''" using assms(1) by (auto simp: is_digit_def digit_value_def)
  have "find (\<lambda>w. prefix w (c # cs)) white_space = None"
    using assms(4) by (simp add: find_None_iff)
  then have t: "trim_start (c # cs) = c # cs" by (simp only: trim_start.simps option.case)
  show ?thesis
    unfolding parseInt_def Let_def t using assms(1,2,3) c0 by auto
qed

lemma is_digit_10: "is_digit 10 c \<Longrightarrow> \<exists>d<10. c = digit_char d"
proof -
  assume "is_digit 10 c"
  then have "c \<in> set ''0123456789''"
    by (auto simp: is_digit_def digit_value_def split: option.splits if_splits)
  then obtain d where d: "d < length ''0123456789''" "''0123456789'' ! d = c"
    unfolding in_set_conv_nth by blast
  from d(1) have "d < 10" by simp
  with d(2) show ?thesis unfolding digit_char_def by blast
qed

lemma validLevel_string:
  assumes "parseInt str = r"
  shows "validLevel (JStr str) =
     Inr (min (max (case r of None \<Rightarrow> 2 | Some i \<Rightarrow> if i = 0 then 2 else i) 1) 6)"
  using assms by (simp add: validLevel_def try_bind_def)

lemma validLevel_words:
  "validLevel (JNum PosInfinity) = Inr 2" "validLevel (JNum NegInfinity) = Inr 2"
  "validLevel JNull = Inr 2" "validLevel (JBool b) = Inr 2" "validLevel (JStr []) = Inr 2"
  "''toString'' \<notin> fst ` set kvs \<Longrightarrow> validLevel (JObj kvs) = Inr 2"
proof -
  have nd: "\<not> is_digit 10 (CHR ''I'')" "\<not> is_digit 10 (CHR ''n'')" "\<not> is_digit 10 (CHR ''t'')"
    "\<not> is_digit 10 (CHR ''f'')" "\<not> is_digit 10 (CHR ''['')"
    by (simp_all add: is_digit_def digit_value_def)
  show "validLevel (JNum PosInfinity) = Inr 2"
    using parseInt_not_numeric(1)[OF nd(1), of "''nfinity''"]
    by (simp add: validLevel_def try_bind_def)
  show "validLevel (JNum NegInfinity) = Inr 2"
    using parseInt_not_numeric(2)[OF nd(1), of "''nfinity''"]
    by (simp add: validLevel_def try_bind_def)
  show "validLevel JNull = Inr 2"
    using parseInt_not_numeric(1)[OF nd(2), of "''ull''"]
    by (simp add: validLevel_def try_bind_def)
  show "validLevel (JBool b) = Inr 2"
    using parseInt_not_numeric(1)[OF nd(3), of "''rue''"]
      parseInt_not_numeric(1)[OF nd(4), of "''alse''"]
    by (simp add: validLevel_def try_bind_def)
  show "validLevel (JStr []) = Inr 2"
    using validLevel_string[OF parseInt_not_numeric(6)[OF nd(1)]] by simp
  show "validLevel (JObj kvs) = Inr 2" if "''toString'' \<notin> fst ` set kvs"
    using that parseInt_not_numeric(1)[OF nd(5), of "''object Object]''"]
    by (simp add: validLevel_def try_bind_def)
qed

lemma digit_3: "digits_value 10 ''3'' = 3" "\<forall>c\<in>set ''3''. is_digit 10 c"
  "\<not> is_digit 10 (CHR ''p'')" "\<not> is_digit 10 (CHR ''a'')"
  by (simp_all add: digits_value_def digit_value_def is_digit_def)

lemma leading_digit_5: "leading_digit 5 = 5"
  by (simp add: leading_digit_def digits_small)

lemma digits_27: "digits 27 = ''27''"
  by (simp add: digits_step digits_small digit_char_def)

lemma digits_8: "digits 8 = ''8''"
  by (simp add: digits_small digit_char_def)

lemma hashes: "replicate 6 (CHR ''#'') = ''######''" "replicate 2 (CHR ''#'') = ''##''"
  by (simp_all add: numeral_eq_Suc)

text \<open>
  Claim C4, as amended. Both heading renderers take the level from the same expression,
  \<open>validLevel\<close>, which lies between 1 and 6: Markdown writes that many \<open>#\<close>, a space and the
  content, HTML writes \<open>hN\<close> tags around the escaped content. The level is read by \<open>parseInt\<close>
  off the string of the value:
  \<^item> for an integer \<open>i\<close> of fewer than 22 digits it is \<open>min (max (i or 2) 1) 6\<close>;
  \<^item> for a number whose string is in decimal notation (\<open>- 6 < e \<le> 21\<close>, that is from
    \<open>0.000001\<close> up to, not including, ten to the power 21) it comes from the integer part,
    truncated toward zero and not rounded;
  \<^item> for a number whose string is in exponent notation it comes from the first
    significant digit: that digit, at most 6, for a positive number and 1 for a negative one;
  \<^item> zero, an absent level, \<open>null\<close>, a boolean, \<open>NaN\<close>, the infinities, a plain object, the
    empty string, and a string whose first character, after an optional sign, is no
    decimal digit (and that, without a sign, does not begin with white space) give level 2;
  \<^item> a string of decimal digits, possibly signed and possibly followed by other
    characters, gives the level its digits denote, brought into 1 to 6 in the same way.
\<close>

theorem heading_level:
  "(validLevel (get_prop block ''level'') = Inr n \<longrightarrow>
      1 \<le> n \<and> n \<le> 6 \<and>
      (\<forall>c. to_string (get_prop block ''content'') = Inr c \<longrightarrow>
         renderHeadingBlockToMarkdown block =
           Inr (JStr (replicate (nat n) (CHR ''#'') @ '' '' @ c))) \<and>
      (\<forall>c. sanitizeHtml (get_prop block ''content'') = Inr c \<longrightarrow>
         renderHeadingBlock block =
           Inr (''<h'' @ [digit_char (nat n)] @ ''>'' @ c @ ''</h'' @ [digit_char (nat n)] @ ''>''))) \<and>
   (\<bar>i\<bar> < 10 ^ 21 \<longrightarrow>
      validLevel (js_int i) = Inr (min (max (if i = 0 then 2 else i) 1) 6)) \<and>
   (- 6 < e \<and> e \<le> 21 \<longrightarrow>
      validLevel (JNum (Dec neg s e)) =
        Inr (min (max (if integer_part (Dec neg s e) = 0 then 2
                       else integer_part (Dec neg s e)) 1) 6)) \<and>
   (s \<noteq> 0 \<and> (e \<le> - 6 \<or> 21 < e) \<longrightarrow>
      validLevel (JNum (Dec neg s e)) = Inr (if neg then 1 else min (int (leading_digit s)) 6)) \<and>
   validLevel (JNum (Dec neg 0 e)) = Inr 2 \<and>
   validLevel JUndefined = Inr 2 \<and>
   validLevel (JNum NaN) = Inr 2 \<and>
   validLevel (JNum PosInfinity) = Inr 2 \<and>
   validLevel (JNum NegInfinity) = Inr 2 \<and>
   validLevel JNull = Inr 2 \<and>
   validLevel (JBool b) = Inr 2 \<and>
   (''toString'' \<notin> fst ` set kvs \<longrightarrow> validLevel (JObj kvs) = Inr 2) \<and>
   validLevel (JStr []) = Inr 2 \<and>
   (\<not> is_digit 10 x \<longrightarrow>
      validLevel (JStr (CHR ''-'' # x # xs)) = Inr 2 \<and>
      validLevel (JStr (CHR ''+'' # x # xs)) = Inr 2 \<and>
      (x \<noteq> CHR ''-'' \<and> x \<noteq> CHR ''+'' \<and> (\<forall>w\<in>set white_space. \<not> prefix w (x # xs))
         \<longrightarrow> validLevel (JStr (x # xs)) = Inr 2)) \<and>
   (z \<noteq> [] \<and> (\<forall>c\<in>set z. is_digit 10 c) \<and>
    (rest = [] \<or>
       (\<not> is_digit 10 (hd rest) \<and> hd rest \<noteq> CHR ''x'' \<and> hd rest \<noteq> CHR ''X'')) \<longrightarrow>
      validLevel (JStr (z @ rest)) =
        Inr (min (max (if digits_value 10 z = 0 then 2 else int (digits_value 10 z)) 1) 6) \<and>
      validLevel (JStr (''+'' @ z @ rest)) =
        Inr (min (max (if digits_value 10 z = 0 then 2 else int (digits_value 10 z)) 1) 6) \<and>
      validLevel (JStr (''-'' @ z @ rest)) = Inr (if digits_value 10 z = 0 then 2 else 1))"
proof (intro conjI impI allI)
  assume v: "validLevel (get_prop block ''level'') = Inr n"
  from validLevel_range[OF v] show "1 \<le> n" "n \<le> 6" by simp_all
next
  fix c
  assume "validLevel (get_prop block ''level'') = Inr n"
    and "to_string (get_prop block ''content'') = Inr c"
  then show "renderHeadingBlockToMarkdown block =
           Inr (JStr (replicate (nat n) (CHR ''#'') @ '' '' @ c))"
    by (simp add: renderHeadingBlockToMarkdown_def try_bind_def)
next
  fix c
  assume v: "validLevel (get_prop block ''level'') = Inr n"
    and c: "sanitizeHtml (get_prop block ''content'') = Inr c"
  from validLevel_range[OF v] have "int_to_string n = [digit_char (nat n)]"
    by (simp add: int_to_string_level)
  with v c show "renderHeadingBlock block =
           Inr (''<h'' @ [digit_char (nat n)] @ ''>'' @ c @ ''</h'' @ [digit_char (nat n)] @ ''>'')"
    by (simp add: renderHeadingBlock_def try_bind_def)
next
  assume "\<bar>i\<bar> < 10 ^ 21"
  then show "validLevel (js_int i) = Inr (min (max (if i = 0 then 2 else i) 1) 6)"
    by (rule validLevel_js_int)
next
  assume "- 6 < e \<and> e \<le> 21"
  then show "validLevel (JNum (Dec neg s e)) =
        Inr (min (max (if integer_part (Dec neg s e) = 0 then 2
                       else integer_part (Dec neg s e)) 1) 6)"
    using validLevel_decimal[of e neg s] by blast
next
  assume "s \<noteq> 0 \<and> (e \<le> - 6 \<or> 21 < e)"
  then show "validLevel (JNum (Dec neg s e)) =
      Inr (if neg then 1 else min (int (leading_digit s)) 6)"
    using validLevel_exponent[of s e neg] by blast
next
  show "validLevel (JNum (Dec neg 0 e)) = Inr 2" by (rule validLevel_zero)
next
  show "validLevel JUndefined = Inr 2" by (rule validLevel_undefined)
next
  show "validLevel (JNum NaN) = Inr 2" by (rule validLevel_NaN)
next
  show "validLevel (JNum PosInfinity) = Inr 2" by (rule validLevel_words)
next
  show "validLevel (JNum NegInfinity) = Inr 2" by (rule validLevel_words)
next
  show "validLevel JNull = Inr 2" by (rule validLevel_words)
next
  show "validLevel (JBool b) = Inr 2" by (rule validLevel_words)
next
  assume "''toString'' \<notin> fst ` set kvs"
  then show "validLevel (JObj kvs) = Inr 2" by (rule validLevel_words)
next
  show "validLevel (JStr []) = Inr 2" by (rule validLevel_words)
next
  assume x: "\<not> is_digit 10 x"
  show "validLevel (JStr (CHR ''-'' # x # xs)) = Inr 2"
    using validLevel_string[OF parseInt_not_numeric(2)[OF x, of xs]] by simp
  show "validLevel (JStr (CHR ''+'' # x # xs)) = Inr 2"
    using validLevel_string[OF parseInt_not_numeric(3)[OF x, of xs]] by simp
  assume "x \<noteq> CHR ''-'' \<and> x \<noteq> CHR ''+'' \<and> (\<forall>w\<in>set white_space. \<not> prefix w (x # xs))"
  then have "parseInt (x # xs) = None" using parseInt_no_space[OF x] by blast
  from validLevel_string[OF this]
  show "validLevel (JStr (x # xs)) = Inr 2" by simp
next
  assume a: "z \<noteq> [] \<and> (\<forall>c\<in>set z. is_digit 10 c) \<and>
    (rest = [] \<or>
       (\<not> is_digit 10 (hd rest) \<and> hd rest \<noteq> CHR ''x'' \<and> hd rest \<noteq> CHR ''X''))"
  then have z: "z \<noteq> []" and zd: "\<forall>c\<in>set z. \<exists>d<10. c = digit_char d"
    and r: "rest = [] \<or>
       (\<not> is_digit 10 (hd rest) \<and> hd rest \<noteq> CHR ''x'' \<and> hd rest \<noteq> CHR ''X'')"
    using is_digit_10 by blast+
  show "validLevel (JStr (z @ rest)) =
        Inr (min (max (if digits_value 10 z = 0 then 2 else int (digits_value 10 z)) 1) 6)"
    using validLevel_string[OF parseInt_prefix(1)[OF z zd r]] by simp
  show "validLevel (JStr (''+'' @ z @ rest)) =
        Inr (min (max (if digits_value 10 z = 0 then 2 else int (digits_value 10 z)) 1) 6)"
    using validLevel_string[OF parseInt_prefix(3)[OF z zd r]] by simp
  show "validLevel (JStr (''-'' @ z @ rest)) = Inr (if digits_value 10 z = 0 then 2 else 1)"
    using validLevel_string[OF parseInt_prefix(2)[OF z zd r]] by simp
qed

theorem heading_level_witness:
  "renderHeadingBlockToMarkdown (heading_example (js_int 8)) = Inr (JStr ''###### X'') \<and>
   renderHeadingBlock (heading_example (js_int 8)) = Inr ''<h6>X</h6>'' \<and>
   validLevel (js_int 8) = Inr 6 \<and>
   validLevel (js_int 0) = Inr 2 \<and>
   validLevel (js_int (- 3)) = Inr 1 \<and>
   validLevel (JNum (Dec False 27 1)) = Inr 2 \<and>
   validLevel (JNum (Dec False 5 (- 6))) = Inr 5 \<and>
   validLevel (JNum (Dec True 5 22)) = Inr 1 \<and>
   validLevel (JObj []) = Inr 2 \<and>
   validLevel (JStr ''abc'') = Inr 2 \<and>
   validLevel (JStr ''-abc'') = Inr 2 \<and>
   validLevel (JStr ''3px'') = Inr 3 \<and>
   validLevel (JStr ''-3'') = Inr 1"
  using heading_level[where block = "heading_example (js_int 8)" and n = 6 and i = 8
      and e = 1 and neg = False and s = 27 and kvs = "[]" and x = "CHR ''a''" and xs = "''bc''"
      and z = "''3''" and rest = "''px''"]
    heading_level[where block = "heading_example (js_int 8)" and n = 6 and i = 0
      and e = "- 6" and neg = False and s = 5 and kvs = "[]" and x = "CHR ''a''" and xs = "''bc''"
      and z = "''3''" and rest = "[]"]
    heading_level[where block = "heading_example (js_int 8)" and n = 6 and i = "- 3"
      and e = 22 and neg = True and s = 5 and kvs = "[]" and x = "CHR ''a''" and xs = "''bc''"
      and z = "''3''" and rest = "[]"]
    plain_head[of "CHR ''a''" "''bc''"]
  by (simp add: heading_example_def sanitizeHtml_string replace_specials_def html_entity_def
      digit_char_def digits_27 Let_def hashes digit_3 leading_digit_5)

text \<open>
  Claim C4 as stated fails. The number 2.7 rounds to 3, and both renderers write level 2.
  The number \<open>5e-7\<close> rounds to 0, which the claim turns into level 2, and the renderers write
  level 5. The string \<open>3px\<close> is no number, and the renderers write level 3.
\<close>

theorem heading_level_truncates:
  "to_string (JNum (Dec False 27 1)) = Inr ''2.7'' \<and>
   renderHeadingBlockToMarkdown (heading_example (JNum (Dec False 27 1))) = Inr (JStr ''## X'') \<and>
   renderHeadingBlock (heading_example (JNum (Dec False 27 1))) = Inr ''<h2>X</h2>'' \<and>
   to_string (JNum (Dec False 5 (- 6))) = Inr ''5e-7'' \<and>
   renderHeadingBlockToMarkdown (heading_example (JNum (Dec False 5 (- 6)))) = Inr (JStr ''##### X'') \<and>
   renderHeadingBlock (heading_example (JNum (Dec False 5 (- 6)))) = Inr ''<h5>X</h5>'' \<and>
   renderHeadingBlockToMarkdown (heading_example (JStr ''3px'')) = Inr (JStr ''### X'') \<and>
   renderHeadingBlock (heading_example (JStr ''3px'')) = Inr ''<h3>X</h3>''"
proof -
  have s: "to_string (JNum (Dec False 27 1)) = Inr ''2.7''"
    by (simp add: dec_to_string_def digits_27 Let_def)
  have s5: "to_string (JNum (Dec False 5 (- 6))) = Inr ''5e-7''"
    by (simp add: dec_to_string_def digits_small digit_char_def Let_def)
  have v: "validLevel (JNum (Dec False 27 1)) = Inr 2"
    using validLevel_decimal[of 1 False 27] by (simp add: digits_27 Let_def)
  have v5: "validLevel (JNum (Dec False 5 (- 6))) = Inr 5"
    using validLevel_exponent[of 5 "- 6" False] by (simp add: leading_digit_5)
  have "parseInt (''3'' @ ''px'') = Some (int (digits_value 10 ''3''))"
    using digit_3 by (intro parseInt_prefix(1)) (auto dest: is_digit_10)
  then have v3: "validLevel (JStr ''3px'') = Inr 3"
    using validLevel_string[of "''3px''" "Some 3"] by (simp add: digit_3)
  have str: "int_to_string 2 = ''2''" "int_to_string 5 = ''5''" "int_to_string 3 = ''3''"
    by (simp_all add: int_to_string_def digits_small digit_char_def)
  have h: "replicate 5 (CHR ''#'') = ''#####''" "replicate 3 (CHR ''#'') = ''###''"
    by (simp_all add: numeral_eq_Suc)
  show ?thesis
    using s s5 v v5 v3 str
    by (simp add: heading_example_def renderHeadingBlockToMarkdown_def renderHeadingBlock_def
        try_bind_def sanitizeHtml_string replace_specials_def html_entity_def hashes h)
qed

section \<open>Properties of \<open>moveBlock\<close>\<close>

lemma denominator_pos: "0 < denominator x"
  by (cases x) simp_all

lemma integer_part_quotient:
  "integer_part (Dec neg s n) =
     (if neg then - 1 else 1) * (\<bar>numerator (Dec neg s n)\<bar> div denominator (Dec neg s n))"
  by (simp add: Let_def zdiv_int abs_mult)

lemma position_in_range:
  assumes "\<not> num_lt p 0" and "\<not> num_ge p (int len)"
  shows "0 \<le> integer_part p" and "integer_part p < int len \<or> (p = NaN \<and> len = 0)"
    and "splice_start p m = integer_part p"
proof -
  show "splice_start p m = integer_part p" using assms by (cases p) simp_all
  show "0 \<le> integer_part p"
  proof (cases p)
    case (Dec neg s n)
    have num: "0 \<le> numerator (Dec neg s n)" using assms(1) Dec by simp
    have "s * 10 ^ nat (n - int (length (digits s))) = 0" if neg
    proof -
      from num that have "int (s * 10 ^ nat (n - int (length (digits s)))) \<le> 0" by simp
      then show ?thesis by linarith
    qed
    then show ?thesis unfolding Dec by (auto simp: Let_def)
  qed simp_all
  show "integer_part p < int len \<or> (p = NaN \<and> len = 0)"
  proof (cases p)
    case (Dec neg s n)
    define a where "a = s * 10 ^ nat (n - int (length (digits s)))"
    define b :: nat where "b = 10 ^ nat (int (length (digits s)) - n)"
    have b: "0 < b" unfolding b_def by simp
    have lt: "(if neg then - 1 else 1) * int a < int len * int b"
      using assms(2) Dec by (simp add: a_def b_def)
    have ge: "0 \<le> (if neg then - 1 else 1) * int a"
      using assms(1) Dec by (simp add: a_def)
    have ip: "integer_part p = (if neg then - 1 else 1) * int (a div b)"
      unfolding Dec by (simp add: Let_def a_def b_def)
    show ?thesis
    proof (cases neg)
      case True
      with ge have "a = 0" by simp
      with lt True b have "0 < len" by (cases len) simp_all
      with ip \<open>a = 0\<close> show ?thesis by simp
    next
      case False
      with lt have "int a < int (len * b)" by simp
      then have "a < len * b" by linarith
      then have "a div b < len" by (rule less_mult_imp_div_less)
      with ip False show ?thesis by simp
    qed
  next
    case NaN
    then show ?thesis by (cases len) simp_all
  next
    case PosInfinity
    then show ?thesis using assms by simp
  next
    case NegInfinity
    then show ?thesis using assms by simp
  qed
qed

lemma int_num_facts:
  "numerator (int_num j) = j" "denominator (int_num j) = 1" "integer_part (int_num j) = j"
  "num_lt (int_num j) m \<longleftrightarrow> j < m" "num_ge (int_num j) m \<longleftrightarrow> m \<le> j"
  by (simp_all add: int_num_def Let_def)

lemma moveBlock_found:
  assumes found: "findIndex (has_id bid) (blocks (article doc)) \<noteq> - 1"
    and p: "\<not> num_lt p 0" "\<not> num_ge p (int (length (blocks (article doc))))"
  shows "moveBlock doc bid p =
     (Inr True,
      set_blocks doc
        (let bs = blocks (article doc); i = nat (findIndex (has_id bid) bs);
             others = take i bs @ drop (Suc i) bs
         in take (nat (integer_part p)) others @ bs ! i # drop (nat (integer_part p)) others))"
    and "0 \<le> integer_part p" and "integer_part p < int (length (blocks (article doc)))"
proof -
  let ?bs = "blocks (article doc)"
  let ?i = "nat (findIndex (has_id bid) ?bs)"
  let ?q = "integer_part p"
  from findIndex_some[OF found] have i: "0 \<le> findIndex (has_id bid) ?bs" "?i < length ?bs" by auto
  have idx: "findIndex (has_id bid) ?bs = int ?i" using i by simp
  from i(2) have nonempty: "length ?bs \<noteq> 0" by (cases "blocks (article doc)") simp_all
  from position_in_range(1,2)[OF p] nonempty
  show q: "0 \<le> ?q" "?q < int (length ?bs)" by blast+
  have start: "splice_start p m = ?q" for m using position_in_range(3)[OF p] .
  have rem: "splice ?bs (findIndex (has_id bid) ?bs) 1 [] =
      (take ?i ?bs @ drop (Suc ?i) ?bs, [?bs ! ?i])"
    using splice_remove_one[OF i(2)] idx by simp
  have len: "length (take ?i ?bs @ drop (Suc ?i) ?bs) = length ?bs - 1" using i by simp
  have pp: "nat ?q \<le> length (take ?i ?bs @ drop (Suc ?i) ?bs)" using q len by simp
  have ins: "splice (take ?i ?bs @ drop (Suc ?i) ?bs) ?q 0 [?bs ! ?i] =
      (take (nat ?q) (take ?i ?bs @ drop (Suc ?i) ?bs) @ ?bs ! ?i #
        drop (nat ?q) (take ?i ?bs @ drop (Suc ?i) ?bs), [])"
    using splice_insert_one[OF pp, of "?bs ! ?i"] q by simp
  show "moveBlock doc bid p =
     (Inr True,
      set_blocks doc
        (let bs = blocks (article doc); i = nat (findIndex (has_id bid) bs);
             others = take i bs @ drop (Suc i) bs
         in take (nat (integer_part p)) others @ bs ! i # drop (nat (integer_part p)) others))"
    unfolding moveBlock_def Let_def using found p rem ins start by simp
qed

text \<open>
  Claim C6, as amended. For an id that some stored block carries, \<open>moveBlock\<close> raises the
  invalid-position error and leaves the document as it was when the position is a number
  below \<open>0\<close> or not below the count of the blocks; for an integer position these are the
  positions outside \<open>0 .. length - 1\<close>. For an id that no block carries it returns \<open>false\<close>
  and leaves the document as it was, whatever the position. In every other case, so also
  for a position with a fractional part between \<open>length - 1\<close> and \<open>length\<close> and for \<open>NaN\<close>, it
  returns \<open>true\<close>: the first block with that id stands at the integer part of the position
  (\<open>0\<close> for \<open>NaN\<close>), which lies within \<open>0 .. length - 1\<close>, and the other blocks keep their
  order (deleting the moved block from the list gives the same list before and after).
\<close>

theorem moveBlock_contract:
  "((\<exists>block\<in>set (blocks (article doc)). has_id bid block) \<and>
      (num_lt p 0 \<or> num_ge p (int (length (blocks (article doc))))) \<longrightarrow>
        moveBlock doc bid p = (Inl (InvalidPositionError p), doc)) \<and>
   (\<not> (\<exists>block\<in>set (blocks (article doc)). has_id bid block) \<longrightarrow>
        moveBlock doc bid p = (Inr False, doc)) \<and>
   ((\<exists>block\<in>set (blocks (article doc)). has_id bid block) \<and>
      \<not> num_lt p 0 \<and> \<not> num_ge p (int (length (blocks (article doc)))) \<longrightarrow>
        (\<exists>doc' i. moveBlock doc bid p = (Inr True, doc') \<and>
           i < length (blocks (article doc)) \<and> has_id bid (blocks (article doc) ! i) \<and>
           title (article doc') = title (article doc) \<and>
           metadata (article doc') = metadata (article doc) \<and>
           length (blocks (article doc')) = length (blocks (article doc)) \<and>
           0 \<le> integer_part p \<and> integer_part p < int (length (blocks (article doc))) \<and>
           blocks (article doc') ! nat (integer_part p) = blocks (article doc) ! i \<and>
           take (nat (integer_part p)) (blocks (article doc'))
               @ drop (Suc (nat (integer_part p))) (blocks (article doc')) =
             take i (blocks (article doc)) @ drop (Suc i) (blocks (article doc)))) \<and>
   ((num_lt (int_num j) 0 \<or> num_ge (int_num j) (int (length (blocks (article doc)))))
      \<longleftrightarrow> (j < 0 \<or> int (length (blocks (article doc))) - 1 < j)) \<and>
   integer_part (int_num j) = j"
proof (intro conjI impI)
  assume a: "(\<exists>block\<in>set (blocks (article doc)). has_id bid block) \<and>
      (num_lt p 0 \<or> num_ge p (int (length (blocks (article doc)))))"
  then have "findIndex (has_id bid) (blocks (article doc)) \<noteq> - 1"
    by (simp add: findIndex_none)
  with a show "moveBlock doc bid p = (Inl (InvalidPositionError p), doc)"
    by (auto simp: moveBlock_def Let_def)
next
  assume "\<not> (\<exists>block\<in>set (blocks (article doc)). has_id bid block)"
  then have "findIndex (has_id bid) (blocks (article doc)) = - 1"
    by (simp add: findIndex_none)
  then show "moveBlock doc bid p = (Inr False, doc)"
    by (simp add: moveBlock_def Let_def)
next
  let ?bs = "blocks (article doc)"
  assume a: "(\<exists>block\<in>set ?bs. has_id bid block) \<and>
      \<not> num_lt p 0 \<and> \<not> num_ge p (int (length ?bs))"
  define i where "i = nat (findIndex (has_id bid) ?bs)"
  define q where "q = nat (integer_part p)"
  define others where "others = take i ?bs @ drop (Suc i) ?bs"
  define new where "new = take q others @ ?bs ! i # drop q others"
  from a have found: "findIndex (has_id bid) ?bs \<noteq> - 1"
    by (simp add: findIndex_none)
  from a have p: "\<not> num_lt p 0" "\<not> num_ge p (int (length ?bs))" by simp_all
  from findIndex_some[OF found] have i: "i < length ?bs" "has_id bid (?bs ! i)"
    by (auto simp: i_def)
  have mv: "moveBlock doc bid p = (Inr True, set_blocks doc new)"
    using moveBlock_found(1)[OF found p] by (simp add: Let_def new_def others_def i_def q_def)
  have range: "0 \<le> integer_part p" "integer_part p < int (length ?bs)"
    using moveBlock_found(2,3)[OF found p] by simp_all
  have len: "length others = length ?bs - 1" using i by (simp add: others_def)
  have "q < length ?bs" using range unfolding q_def by linarith
  then have pp: "q \<le> length others" unfolding len by linarith
  have l: "length new = length ?bs"
    using insert_at_props(3)[OF pp, of "?bs ! i"] len i unfolding new_def by linarith
  have n: "new ! q = ?bs ! i" using insert_at_props(1)[OF pp] unfolding new_def .
  have o: "take q new @ drop (Suc q) new = take i ?bs @ drop (Suc i) ?bs"
    using insert_at_props(2)[OF pp, of "?bs ! i"] unfolding new_def others_def .
  show "\<exists>doc' i. moveBlock doc bid p = (Inr True, doc') \<and>
           i < length ?bs \<and> has_id bid (?bs ! i) \<and>
           title (article doc') = title (article doc) \<and>
           metadata (article doc') = metadata (article doc) \<and>
           length (blocks (article doc')) = length ?bs \<and>
           0 \<le> integer_part p \<and> integer_part p < int (length ?bs) \<and>
           blocks (article doc') ! nat (integer_part p) = ?bs ! i \<and>
           take (nat (integer_part p)) (blocks (article doc'))
               @ drop (Suc (nat (integer_part p))) (blocks (article doc')) =
             take i ?bs @ drop (Suc i) ?bs"
    using mv i l n o range unfolding q_def
    by (intro exI[of _ "set_blocks doc new"] exI[of _ i]) (simp add: set_blocks_def)
next
  show "(num_lt (int_num j) 0 \<or> num_ge (int_num j) (int (length (blocks (article doc)))))
      \<longleftrightarrow> (j < 0 \<or> int (length (blocks (article doc))) - 1 < j)"
    unfolding int_num_facts by linarith
next
  show "integer_part (int_num j) = j" by (rule int_num_facts)
qed

lemma digits_25: "digits 25 = ''25''"
  by (simp add: digits_step digits_small digit_char_def)

lemma digits_15: "digits 15 = ''15''"
  by (simp add: digits_step digits_small digit_char_def)

theorem moveBlock_contract_witness:
  "moveBlock ex3 (JStr ''a'') (int_num 3) = (Inl (InvalidPositionError (int_num 3)), ex3) \<and>
   moveBlock ex3 (JStr ''a'') (int_num (- 1)) = (Inl (InvalidPositionError (int_num (- 1))), ex3) \<and>
   moveBlock ex3 (JStr ''a'') PosInfinity = (Inl (InvalidPositionError PosInfinity), ex3) \<and>
   moveBlock ex3 (JStr ''zz'') (int_num 0) = (Inr False, ex3) \<and>
   map (\<lambda>b. get_prop (JObj b) ''id'')
       (blocks (article (snd (moveBlock ex3 (JStr ''c'') (int_num 0)))))
     = [JStr ''c'', JStr ''a'', JStr ''b''] \<and>
   map (\<lambda>b. get_prop (JObj b) ''id'')
       (blocks (article (snd (moveBlock ex3 (JStr ''a'') (Dec False 15 1)))))
     = [JStr ''b'', JStr ''a'', JStr ''c'']"
  using moveBlock_contract[of ex3 "JStr ''a''" "int_num 3" 3]
    moveBlock_contract[of ex3 "JStr ''a''" "int_num (- 1)" "- 1"]
    moveBlock_contract[of ex3 "JStr ''a''" PosInfinity 0]
    moveBlock_contract[of ex3 "JStr ''zz''" "int_num 0" 0]
    moveBlock_contract[of ex3 "JStr ''c''" "int_num 0" 0]
    moveBlock_contract[of ex3 "JStr ''a''" "Dec False 15 1" 0]
  by (simp add: ex3_def has_id_def moveBlock_def Let_def splice_def set_blocks_def int_num_def
      digits_small digits_15)

text \<open>
  Claim C6 as stated fails: with three blocks the position 2.5 lies above \<open>length - 1 = 2\<close>,
  and \<open>NaN\<close> is no position at all, yet neither call raises: the block is moved to the place
  2, and to the place 0.
\<close>

theorem moveBlock_fraction_accepted:
  "num_to_string (Dec False 25 1) = ''2.5'' \<and>
   2 * denominator (Dec False 25 1) < numerator (Dec False 25 1) \<and>
   moveBlock ex3 (JStr ''a'') (Dec False 25 1) =
     (Inr True,
      set_blocks ex3
        [[(''id'', JStr ''b''), (''type'', JStr ''text''), (''content'', JStr ''y'')],
         [(''id'', JStr ''c''), (''type'', JStr ''text''), (''content'', JStr ''z'')],
         [(''id'', JStr ''a''), (''type'', JStr ''text''), (''content'', JStr ''x'')]]) \<and>
   moveBlock ex3 (JStr ''c'') NaN =
     (Inr True,
      set_blocks ex3
        [[(''id'', JStr ''c''), (''type'', JStr ''text''), (''content'', JStr ''z'')],
         [(''id'', JStr ''a''), (''type'', JStr ''text''), (''content'', JStr ''x'')],
         [(''id'', JStr ''b''), (''type'', JStr ''text''), (''content'', JStr ''y'')]])"
  by (simp add: ex3_def has_id_def moveBlock_def Let_def splice_def set_blocks_def
      dec_to_string_def digits_25)

section \<open>Properties of the renderers\<close>


lemma try_bind_Inr [simp]: "try_bind (Inr x) f = f x"
  by (simp add: try_bind_def)

lemma try_bind_Inl_simp [simp]: "try_bind (Inl e) f = Inl e"
  by (simp add: try_bind_def)



lemma sequence_map_Inr [simp]: "sequence (map Inr xs) = Inr xs"
  by (induction xs) simp_all


























lemma isArray_truthy: "isArray v \<Longrightarrow> truthy v"
  by (cases v) simp_all

lemma isArray_elements: "isArray v \<Longrightarrow> v = JArr (elements v)"
  by (cases v) simp_all










section \<open>Properties of stored blocks\<close>

lemma assign_absent: "k \<notin> fst ` set obj \<Longrightarrow> assign k v obj = obj @ [(k, v)]"
  unfolding assign_def by (induction obj) auto

lemma assign_same: "map_of obj k = Some v \<Longrightarrow> assign k v obj = obj"
  unfolding assign_def by (rule AList.update_triv)

lemma map_of_assign: "map_of (assign k v obj) k' = (if k' = k then Some v else map_of obj k')"
  unfolding assign_def by (simp add: AList.update_conv')

lemma get_prop_assign:
  "get_prop (JObj (assign k v obj)) k' = (if k' = k then v else get_prop (JObj obj) k')"
  by (simp add: map_of_assign)

lemma keys_assign: "fst ` set (assign k v obj) = insert k (fst ` set obj)"
  unfolding assign_def by (simp add: AList.dom_update)

lemma distinct_assign: "distinct (map fst obj) \<Longrightarrow> distinct (map fst (assign k v obj))"
  unfolding assign_def by (rule AList.distinct_update)

lemma requiredProps_cases:
  "requiredProps T = [] \<or> requiredProps T = [''level''] \<or> requiredProps T = [''language'']
   \<or> requiredProps T = [''url'', ''alt''] \<or> requiredProps T = [''items'', ''listType'']"
  by (simp add: requiredProps_def TYPE_REQUIREMENTS_def)

lemma requiredProps_facts:
  "distinct (requiredProps T)"
  "set (requiredProps T) \<inter> set [''id'', ''type'', ''content''] = {}"
  "set (requiredProps T) \<inter> set INHERITED = {}"
  using requiredProps_cases[of T] by (auto simp: INHERITED_def)

text \<open>The loop over the required properties appends them, in order.\<close>

lemma copy_required_appends:
  assumes "distinct ps" "set ps \<inter> fst ` set this = {}"
    and "\<forall>p\<in>set ps. get_prop data p \<noteq> JUndefined"
  shows "copy_required data ty ps this = Inr (this @ map (\<lambda>p. (p, get_prop data p)) ps)"
  using assms
proof (induction ps arbitrary: this)
  case Nil
  then show ?case by simp
next
  case (Cons p ps)
  have a: "assign p (get_prop data p) this = this @ [(p, get_prop data p)]"
    using Cons.prems by (intro assign_absent) auto
  have "copy_required data ty ps (this @ [(p, get_prop data p)]) =
      Inr ((this @ [(p, get_prop data p)]) @ map (\<lambda>p. (p, get_prop data p)) ps)"
    using Cons.prems by (intro Cons.IH) auto
  then show ?case using Cons.prems a by simp
qed

lemma copy_required_result:
  assumes "copy_required data ty ps this = Inr this'"
  shows "\<forall>p\<in>set ps. get_prop data p \<noteq> JUndefined"
  using assms by (induction ps arbitrary: this) (auto split: if_splits)

lemma copy_additional_step:
  assumes ex: "extras_of data fixed ex"
    and fixed: "\<forall>kv\<in>set fixed. fst kv \<in> set [''id'', ''type'', ''content''] \<or> snd kv \<noteq> JUndefined"
  shows "\<exists>ex'. (if key \<notin> set [''id'', ''type'', ''content''] \<and> this_undefined (fixed @ ex) key
               then assign key (get_prop data key) (fixed @ ex) else fixed @ ex) = fixed @ ex'
           \<and> extras_of data fixed ex'"
proof (cases "key \<notin> set [''id'', ''type'', ''content''] \<and> this_undefined (fixed @ ex) key")
  case False
  then show ?thesis using ex by auto
next
  case True
  show ?thesis
  proof (cases "map_of (fixed @ ex) key")
    case None
    then have absent: "key \<notin> fst ` set (fixed @ ex)" by (metis map_of_eq_None_iff)
    from True None have ninh: "key \<notin> set INHERITED"
      by (simp add: this_undefined_def del: map_of_append)
    have "assign key (get_prop data key) (fixed @ ex) = fixed @ (ex @ [(key, get_prop data key)])"
      using assign_absent[OF absent] by simp
    moreover have "extras_of data fixed (ex @ [(key, get_prop data key)])"
      using ex absent ninh True unfolding extras_of_def by auto
    ultimately show ?thesis using True by auto
  next
    case (Some v)
    with True have v: "v = JUndefined" by (simp add: this_undefined_def del: map_of_append)
    have d: "distinct (map fst (fixed @ ex))" using ex by (simp add: extras_of_def)
    from Some have mem: "(key, v) \<in> set (fixed @ ex)" by (rule map_of_SomeD)
    have "(key, v) \<notin> set fixed"
    proof
      assume "(key, v) \<in> set fixed"
      with fixed have "key \<in> set [''id'', ''type'', ''content''] \<or> v \<noteq> JUndefined" by fastforce
      with True v show False by simp
    qed
    with mem have "(key, v) \<in> set ex" by simp
    with ex have "v = get_prop data key" unfolding extras_of_def by fastforce
    then have "assign key (get_prop data key) (fixed @ ex) = fixed @ ex"
      using assign_same[OF Some] by simp
    then show ?thesis using True ex by auto
  qed
qed

lemma copy_additional_extras:
  assumes "extras_of data fixed ex"
    and "\<forall>kv\<in>set fixed. fst kv \<in> set [''id'', ''type'', ''content''] \<or> snd kv \<noteq> JUndefined"
  shows "\<exists>ex'. copy_additional data ks (fixed @ ex) = fixed @ ex' \<and> extras_of data fixed ex'"
  using assms(1)
proof (induction ks arbitrary: ex)
  case Nil
  then show ?case by auto
next
  case (Cons key ks)
  from copy_additional_step[OF Cons.prems assms(2), of key] obtain ex1 where
    s: "(if key \<notin> set [''id'', ''type'', ''content''] \<and> this_undefined (fixed @ ex) key
         then assign key (get_prop data key) (fixed @ ex) else fixed @ ex) = fixed @ ex1"
    and e: "extras_of data fixed ex1" by blast
  from Cons.IH[OF e] obtain ex' where
    "copy_additional data ks (fixed @ ex1) = fixed @ ex'" "extras_of data fixed ex'" by blast
  then show ?case using s by (simp del: set_simps)
qed

lemma fixed_part_keys:
  "map fst (fixed_part data T) = [''id'', ''type'', ''content''] @ requiredProps T"
  by (simp add: fixed_part_def comp_def)

lemma fixed_part_distinct: "distinct (map fst (fixed_part data T))"
  using requiredProps_facts[of T] by (auto simp: fixed_part_keys)

lemma fixed_part_defined:
  assumes "\<forall>p\<in>set (requiredProps T). get_prop data p \<noteq> JUndefined"
  shows "\<forall>kv\<in>set (fixed_part data T).
           fst kv \<in> set [''id'', ''type'', ''content''] \<or> snd kv \<noteq> JUndefined"
  using assms by (auto simp: fixed_part_def)

lemma Block_shape:
  assumes "Block data = Inr block"
  shows "\<exists>T ex. get_prop data ''type'' = JStr T \<and> T \<in> set ALLOWED_TYPES \<and>
           truthy (get_prop data ''id'') \<and>
           (\<forall>p\<in>set (requiredProps T). get_prop data p \<noteq> JUndefined) \<and>
           block = fixed_part data T @ ex \<and> extras_of data (fixed_part data T) ex"
proof -
  have nn: "\<not> nullish data" using assms by (auto simp: Block_def split: if_splits)
  have idt: "truthy (get_prop data ''id'')" using assms nn by (auto simp: Block_def split: if_splits)
  have inc: "array_includes ALLOWED_TYPES (get_prop data ''type'')"
  proof (rule ccontr)
    assume "\<not> array_includes ALLOWED_TYPES (get_prop data ''type'')"
    from Block_invalid_type[OF idt this] assms show False
      by (cases "to_string (get_prop data ''type'')") simp_all
  qed
  then obtain T where T: "get_prop data ''type'' = JStr T" "T \<in> set ALLOWED_TYPES"
    by (auto simp: array_includes_string)
  let ?base = "[(''id'', get_prop data ''id''), (''type'', JStr T),
           (''content'', js_or (get_prop data ''content'') (JStr ''''))]"
  from Block_valid_type[OF idt T] assms obtain this1 where
    cr: "copy_required data T (requiredProps T) ?base = Inr this1"
    and blk: "block = copy_additional data (keys data) this1"
    by (cases "copy_required data T (requiredProps T) ?base") auto
  from copy_required_result[OF cr] have defd: "\<forall>p\<in>set (requiredProps T). get_prop data p \<noteq> JUndefined" .
  have "copy_required data T (requiredProps T) ?base =
      Inr (?base @ map (\<lambda>p. (p, get_prop data p)) (requiredProps T))"
    using requiredProps_facts[of T] defd by (intro copy_required_appends) auto
  with cr have this1: "this1 = fixed_part data T" by (simp add: fixed_part_def)
  have e0: "extras_of data (fixed_part data T) []"
    using fixed_part_distinct by (simp add: extras_of_def)
  from copy_additional_extras[OF e0 fixed_part_defined[OF defd], of "keys data"]
  obtain ex where "copy_additional data (keys data) (fixed_part data T) = fixed_part data T @ ex"
    "extras_of data (fixed_part data T) ex" by auto
  with blk this1 T idt defd show ?thesis by auto
qed

lemma get_prop_member:
  "distinct (map fst obj) \<Longrightarrow> (k, v) \<in> set obj \<Longrightarrow> get_prop (JObj obj) k = v"
  by simp

lemma toJSON_fold:
  assumes "distinct (map fst (acc @ rest))"
    and "\<forall>kv\<in>set rest. fst kv \<notin> set [''id'', ''type'', ''content'']
            \<and> get_prop (JObj this) (fst kv) = snd kv"
  shows "fold (\<lambda>key result.
             if key \<notin> set [''id'', ''type'', ''content'']
             then assign key (get_prop (JObj this) key) result
             else result)
       (map fst rest) acc = acc @ rest"
  using assms
proof (induction rest arbitrary: acc)
  case Nil
  then show ?case by simp
next
  case (Cons kv rest)
  have absent: "fst kv \<notin> fst ` set acc" using Cons.prems(1) by auto
  have step: "assign (fst kv) (get_prop (JObj this) (fst kv)) acc = acc @ [kv]"
    using assign_absent[OF absent] Cons.prems(2) by simp
  have "fold (\<lambda>key result.
             if key \<notin> set [''id'', ''type'', ''content'']
             then assign key (get_prop (JObj this) key) result
             else result)
       (map fst rest) (acc @ [kv]) = (acc @ [kv]) @ rest"
    using Cons.prems by (intro Cons.IH) auto
  then show ?case using step Cons.prems(2) by simp
qed

lemma toJSON_identity:
  assumes d: "distinct (map fst (fixed_part data T @ ex))"
  shows "toJSON (fixed_part data T @ ex) = fixed_part data T @ ex"
proof -
  let ?obj = "fixed_part data T @ ex"
  let ?base = "[(''id'', get_prop data ''id''), (''type'', JStr T),
           (''content'', js_or (get_prop data ''content'') (JStr ''''))]"
  let ?rest = "map (\<lambda>p. (p, get_prop data p)) (requiredProps T) @ ex"
  have split: "?obj = ?base @ ?rest" by (simp add: fixed_part_def)
  have base: "[(''id'', get_prop (JObj ?obj) ''id''), (''type'', get_prop (JObj ?obj) ''type''),
        (''content'', get_prop (JObj ?obj) ''content'')] = ?base"
    by (simp add: fixed_part_def)
  have look: "\<forall>kv\<in>set ?rest. fst kv \<notin> set [''id'', ''type'', ''content'']
            \<and> get_prop (JObj ?obj) (fst kv) = snd kv"
  proof
    fix kv assume kv: "kv \<in> set ?rest"
    then have "kv \<in> set ?obj" unfolding split by simp
    then have "(fst kv, snd kv) \<in> set ?obj" by simp
    from get_prop_member[OF d this] have g: "get_prop (JObj ?obj) (fst kv) = snd kv" .
    have "fst kv \<notin> set [''id'', ''type'', ''content'']"
      using d kv unfolding split by (auto simp: rev_image_eqI)
    with g show "fst kv \<notin> set [''id'', ''type'', ''content'']
            \<and> get_prop (JObj ?obj) (fst kv) = snd kv" by simp
  qed
  have d': "distinct (map fst (?base @ ?rest))" using d unfolding split .
  have "toJSON ?obj =
     fold (\<lambda>key result.
             if key \<notin> set [''id'', ''type'', ''content'']
             then assign key (get_prop (JObj ?obj) key) result
             else result)
       (map fst ?obj) ?base"
    unfolding toJSON_def base ..
  also have "map fst ?obj = [''id'', ''type'', ''content''] @ map fst ?rest"
    by (simp add: fixed_part_def)
  also have "fold (\<lambda>key result.
             if key \<notin> set [''id'', ''type'', ''content'']
             then assign key (get_prop (JObj ?obj) key) result
             else result)
       ([''id'', ''type'', ''content''] @ map fst ?rest) ?base =
     fold (\<lambda>key result.
             if key \<notin> set [''id'', ''type'', ''content'']
             then assign key (get_prop (JObj ?obj) key) result
             else result)
       (map fst ?rest) ?base"
    by simp
  also have "\<dots> = ?base @ ?rest" using toJSON_fold[OF d' look] .
  finally show ?thesis unfolding split .
qed

lemma copy_additional_append:
  "copy_additional d (ks1 @ ks2) obj = copy_additional d ks2 (copy_additional d ks1 obj)"
  by (induction ks1 arbitrary: obj) simp_all

lemma copy_additional_skip:
  "\<forall>k\<in>set ks. k \<in> set [''id'', ''type'', ''content''] \<or> \<not> this_undefined obj k
     \<Longrightarrow> copy_additional d ks obj = obj"
  by (induction ks) auto

lemma copy_additional_fresh:
  assumes "distinct ks" "set ks \<inter> fst ` set obj = {}" "set ks \<inter> set INHERITED = {}"
    "set ks \<inter> set [''id'', ''type'', ''content''] = {}"
  shows "copy_additional d ks obj = obj @ map (\<lambda>k. (k, get_prop d k)) ks"
  using assms
proof (induction ks arbitrary: obj)
  case Nil
  then show ?case by simp
next
  case (Cons k ks)
  have absent: "k \<notin> fst ` set obj" using Cons.prems(2) by auto
  then have none: "map_of obj k = None" by (simp add: map_of_eq_None_iff)
  have und: "this_undefined obj k" using none Cons.prems(3) by (simp add: this_undefined_def)
  have nb: "k \<notin> set [''id'', ''type'', ''content'']" using Cons.prems(4) by auto
  have step: "copy_additional d (k # ks) obj = copy_additional d ks (obj @ [(k, get_prop d k)])"
    using und nb assign_absent[OF absent] by simp
  have "copy_additional d ks (obj @ [(k, get_prop d k)])
      = (obj @ [(k, get_prop d k)]) @ map (\<lambda>k. (k, get_prop d k)) ks"
    using Cons.prems by (intro Cons.IH) auto
  with step show ?case by simp
qed

lemma js_or_idem: "js_or (js_or a b) b = js_or a b"
  by (simp add: js_or_def)

lemma Block_fixpoint:
  assumes "Block data = Inr block"
  shows "toJSON block = block \<and> Block (JObj block) = Inr block
          \<and> get_prop (JObj block) ''id'' = get_prop data ''id''"
proof -
  from Block_shape[OF assms] obtain T ex where
    T: "get_prop data ''type'' = JStr T" "T \<in> set ALLOWED_TYPES"
    and idt: "truthy (get_prop data ''id'')"
    and defd: "\<forall>p\<in>set (requiredProps T). get_prop data p \<noteq> JUndefined"
    and blk: "block = fixed_part data T @ ex"
    and ex: "extras_of data (fixed_part data T) ex" by blast
  have d: "distinct (map fst (fixed_part data T @ ex))" using ex by (simp add: extras_of_def)
  have tj: "toJSON block = block" unfolding blk using toJSON_identity[OF d] .
  have gid: "get_prop (JObj block) ''id'' = get_prop data ''id''"
    unfolding blk by (simp add: fixed_part_def)
  have gty: "get_prop (JObj block) ''type'' = JStr T"
    unfolding blk by (simp add: fixed_part_def)
  have gco: "get_prop (JObj block) ''content'' = js_or (get_prop data ''content'') (JStr '''')"
    unfolding blk by (simp add: fixed_part_def)
  have greq: "get_prop (JObj block) p = get_prop data p" if "p \<in> set (requiredProps T)" for p
  proof -
    have "(p, get_prop data p) \<in> set (fixed_part data T @ ex)"
      using that by (auto simp: fixed_part_def)
    from get_prop_member[OF d this] show ?thesis unfolding blk .
  qed
  have m: "map (\<lambda>p. (p, get_prop (JObj block) p)) (requiredProps T)
      = map (\<lambda>p. (p, get_prop data p)) (requiredProps T)"
    by (rule map_cong[OF refl]) (simp only: greq)
  have fp: "fixed_part (JObj block) T = fixed_part data T"
    unfolding fixed_part_def by (simp only: gid gco js_or_idem m)
  have idt': "truthy (get_prop (JObj block) ''id'')" using idt gid by simp
  have defd': "\<forall>p\<in>set (requiredProps T). get_prop (JObj block) p \<noteq> JUndefined"
    using defd greq by simp
  let ?base = "[(''id'', get_prop (JObj block) ''id''), (''type'', JStr T),
           (''content'', js_or (get_prop (JObj block) ''content'') (JStr ''''))]"
  have "copy_required (JObj block) T (requiredProps T) ?base =
      Inr (?base @ map (\<lambda>p. (p, get_prop (JObj block) p)) (requiredProps T))"
    using requiredProps_facts[of T] defd' by (intro copy_required_appends) auto
  then have cr: "copy_required (JObj block) T (requiredProps T) ?base = Inr (fixed_part data T)"
    using fp by (simp add: fixed_part_def)
  have B: "Block (JObj block) = Inr (copy_additional (JObj block) (keys (JObj block)) (fixed_part data T))"
    using Block_valid_type[OF idt' gty T(2)] cr by simp
  have k: "keys (JObj block) = map fst (fixed_part data T) @ map fst ex"
    unfolding blk by simp
  have skip: "copy_additional (JObj block) (map fst (fixed_part data T)) (fixed_part data T)
        = fixed_part data T"
  proof (rule copy_additional_skip, rule ballI)
    fix k assume "k \<in> set (map fst (fixed_part data T))"
    then consider "k \<in> set [''id'', ''type'', ''content'']" | "k \<in> set (requiredProps T)"
      by (auto simp: fixed_part_keys)
    then show "k \<in> set [''id'', ''type'', ''content''] \<or> \<not> this_undefined (fixed_part data T) k"
    proof cases
      case 1
      then show ?thesis by simp
    next
      case 2
      then have "(k, get_prop data k) \<in> set (fixed_part data T)" by (auto simp: fixed_part_def)
      then have "map_of (fixed_part data T) k = Some (get_prop data k)"
        using fixed_part_distinct by simp
      then show ?thesis using defd 2 by (simp add: this_undefined_def)
    qed
  qed
  have fresh: "copy_additional (JObj block) (map fst ex) (fixed_part data T)
      = fixed_part data T @ map (\<lambda>k. (k, get_prop (JObj block) k)) (map fst ex)"
    using d ex by (intro copy_additional_fresh) (auto simp: extras_of_def)
  have "map (\<lambda>k. (k, get_prop (JObj block) k)) (map fst ex) = ex"
  proof -
    have "(fst kv, get_prop (JObj block) (fst kv)) = kv" if "kv \<in> set ex" for kv
    proof -
      have "(fst kv, snd kv) \<in> set (fixed_part data T @ ex)" using that by simp
      from get_prop_member[OF d this] show ?thesis unfolding blk by simp
    qed
    then show ?thesis by (simp add: comp_def map_idI)
  qed
  with fresh have "copy_additional (JObj block) (map fst ex) (fixed_part data T) = block"
    unfolding blk by simp
  with B k skip have "Block (JObj block) = Inr block"
    by (simp only: copy_additional_append)
  with tj gid show ?thesis by simp
qed

section \<open>Distinct ids\<close>

lemma num_strict_eq_sym: "num_strict_eq x y = num_strict_eq y x"
  by (cases x; cases y) auto

lemma strict_eq_sym: "strict_eq a b = strict_eq b a"
  by (cases a; cases b) (auto simp: num_strict_eq_sym)

lemma has_id_sym: "has_id (get_prop (JObj b) ''id'') c = has_id (get_prop (JObj c) ''id'') b"
  unfolding has_id_def by (rule strict_eq_sym)

lemma ids_distinct_sorted_wrt:
  "ids_distinct bs = sorted_wrt (\<lambda>b c. \<not> has_id (get_prop (JObj b) ''id'') c) bs"
  by (induction bs) (simp_all add: list_ex_iff)

lemma ids_distinct_append:
  "ids_distinct (xs @ ys) \<longleftrightarrow>
     ids_distinct xs \<and> ids_distinct ys \<and>
     (\<forall>x\<in>set xs. \<forall>y\<in>set ys. \<not> has_id (get_prop (JObj x) ''id'') y)"
  by (simp add: ids_distinct_sorted_wrt sorted_wrt_append)

lemma ids_distinct_single: "ids_distinct [b]"
  by simp

lemma ids_distinct_insert:
  assumes "ids_distinct ys" and "\<forall>y\<in>set ys. \<not> has_id (get_prop (JObj x) ''id'') y"
  shows "ids_distinct (take p ys @ [x] @ drop p ys)"
proof -
  have "ids_distinct (take p ys @ drop p ys)" using assms(1) by simp
  then have parts: "ids_distinct (take p ys)" "ids_distinct (drop p ys)"
    "\<forall>a\<in>set (take p ys). \<forall>c\<in>set (drop p ys). \<not> has_id (get_prop (JObj a) ''id'') c"
    unfolding ids_distinct_append by blast+
  have right: "\<forall>c\<in>set (drop p ys). \<not> has_id (get_prop (JObj x) ''id'') c"
    using assms(2) by (meson in_set_dropD)
  have left: "\<forall>a\<in>set (take p ys). \<not> has_id (get_prop (JObj a) ''id'') x"
    using assms(2) has_id_sym by (meson in_set_takeD)
  show ?thesis
    unfolding ids_distinct_append using parts right left by (simp add: list_ex_iff)
qed

lemma ids_distinct_remove:
  assumes "ids_distinct xs" and "i < length xs"
  shows "ids_distinct (take i xs @ drop (Suc i) xs)"
    and "\<forall>y\<in>set (take i xs @ drop (Suc i) xs). \<not> has_id (get_prop (JObj (xs ! i)) ''id'') y"
proof -
  have "xs = take i xs @ [xs ! i] @ drop (Suc i) xs"
    using assms(2) by (simp add: id_take_nth_drop)
  then have "ids_distinct (take i xs @ [xs ! i] @ drop (Suc i) xs)" using assms(1) by simp
  then have parts: "ids_distinct (take i xs)" "ids_distinct (drop (Suc i) xs)"
    "\<forall>a\<in>set (take i xs). \<not> has_id (get_prop (JObj a) ''id'') (xs ! i)"
    "\<forall>a\<in>set (take i xs). \<forall>c\<in>set (drop (Suc i) xs). \<not> has_id (get_prop (JObj a) ''id'') c"
    "\<forall>c\<in>set (drop (Suc i) xs). \<not> has_id (get_prop (JObj (xs ! i)) ''id'') c"
    unfolding ids_distinct_append by (auto simp: list_ex_iff)
  show "ids_distinct (take i xs @ drop (Suc i) xs)"
    unfolding ids_distinct_append using parts by simp
  show "\<forall>y\<in>set (take i xs @ drop (Suc i) xs). \<not> has_id (get_prop (JObj (xs ! i)) ''id'') y"
    using parts(3,5) has_id_sym by auto
qed

lemma splice_insert_any:
  "\<exists>k. fst (splice xs start 0 items) = take k xs @ items @ drop k xs"
proof -
  define a where
    "a = (if start < 0 then max (int (length xs) + start) 0 else min start (int (length xs)))"
  have "a \<le> int (length xs)" unfolding a_def by auto
  then have "min 0 (int (length xs) - a) = 0" by simp
  then have "fst (splice xs start 0 items) = take (nat a) xs @ items @ drop (nat a) xs"
    unfolding splice_def Let_def a_def[symmetric] by simp
  then show ?thesis ..
qed

section \<open>The operations and the distinct ids\<close>

lemma blocks_set_blocks: "blocks (article (set_blocks doc bs)) = bs"
  by (simp add: set_blocks_def)

lemma new_block_ids_distinct:
  assumes d: "ids_distinct (blocks (article doc))"
    and fresh: "\<not> truthy (getBlock doc (get_prop blockData ''id''))"
    and B: "Block blockData = Inr block"
  shows "ids_distinct (take k (blocks (article doc)) @ [toJSON block] @ drop k (blocks (article doc)))"
proof -
  from Block_fixpoint[OF B] have tj: "toJSON block = block"
    and gid: "get_prop (JObj block) ''id'' = get_prop blockData ''id''" by simp_all
  have "\<forall>y\<in>set (blocks (article doc)). \<not> has_id (get_prop (JObj block) ''id'') y"
    using fresh unfolding getBlock_truthy gid by simp
  from ids_distinct_insert[OF d this] show ?thesis unfolding tj .
qed

lemma addBlock_ids_distinct:
  assumes "ids_distinct (blocks (article doc))"
  shows "ids_distinct (blocks (article (snd (addBlock doc blockData))))"
proof (cases "\<not> nullish blockData \<and> \<not> truthy (getBlock doc (get_prop blockData ''id''))")
  case False
  then show ?thesis using assms by (auto simp: addBlock_def)
next
  case True
  show ?thesis
  proof (cases "Block blockData")
    case (Inl e)
    then show ?thesis using True assms by (simp add: addBlock_def)
  next
    case (Inr block)
    from new_block_ids_distinct[OF assms _ Inr, of "length (blocks (article doc))"] True
    have "ids_distinct (blocks (article doc) @ [toJSON block])" by simp
    then show ?thesis using True Inr by (simp add: addBlock_def blocks_set_blocks)
  qed
qed

lemma insertBlock_ids_distinct:
  assumes "ids_distinct (blocks (article doc))"
  shows "ids_distinct (blocks (article (snd (insertBlock doc blockData position))))"
proof (cases "\<not> nullish blockData \<and> \<not> truthy (getBlock doc (get_prop blockData ''id''))")
  case False
  then show ?thesis using assms by (auto simp: insertBlock_def)
next
  case True
  show ?thesis
  proof (cases "Block blockData")
    case (Inl e)
    then show ?thesis using True assms by (simp add: insertBlock_def)
  next
    case (Inr block)
    obtain k where k: "fst (splice (blocks (article doc))
          (splice_start position (length (blocks (article doc)))) 0 [toJSON block])
        = take k (blocks (article doc)) @ [toJSON block] @ drop k (blocks (article doc))"
      using splice_insert_any by blast
    from new_block_ids_distinct[OF assms _ Inr, of k] True
    have "ids_distinct (fst (splice (blocks (article doc))
          (splice_start position (length (blocks (article doc)))) 0 [toJSON block]))"
      unfolding k by simp
    then show ?thesis using True Inr by (simp add: insertBlock_def blocks_set_blocks)
  qed
qed

lemma removeBlock_ids_distinct:
  assumes "ids_distinct (blocks (article doc))"
  shows "ids_distinct (blocks (article (snd (removeBlock doc bid))))"
proof (cases "findIndex (has_id bid) (blocks (article doc)) = - 1")
  case True
  then show ?thesis using assms by (simp add: removeBlock_def)
next
  case False
  define i where "i = nat (findIndex (has_id bid) (blocks (article doc)))"
  from findIndex_some[OF False] have i: "i < length (blocks (article doc))"
    and ii: "findIndex (has_id bid) (blocks (article doc)) = int i"
    unfolding i_def by simp_all
  have "snd (removeBlock doc bid) =
      set_blocks doc (take i (blocks (article doc)) @ drop (Suc i) (blocks (article doc)))"
    using False by (simp add: removeBlock_def Let_def ii splice_remove_one[OF i] del: One_nat_def)
  then show ?thesis using ids_distinct_remove(1)[OF assms i] by (simp add: blocks_set_blocks)
qed

lemma moveBlock_ids_distinct:
  assumes "ids_distinct (blocks (article doc))"
  shows "ids_distinct (blocks (article (snd (moveBlock doc bid newPosition))))"
proof (cases "findIndex (has_id bid) (blocks (article doc)) \<noteq> - 1
    \<and> \<not> num_lt newPosition 0 \<and> \<not> num_ge newPosition (int (length (blocks (article doc))))")
  case False
  then show ?thesis using assms by (auto simp: moveBlock_def Let_def)
next
  case True
  define i where "i = nat (findIndex (has_id bid) (blocks (article doc)))"
  define others where
    "others = take i (blocks (article doc)) @ drop (Suc i) (blocks (article doc))"
  from True have found: "findIndex (has_id bid) (blocks (article doc)) \<noteq> - 1" by simp
  from findIndex_some[OF found] have i: "i < length (blocks (article doc))"
    and ii: "findIndex (has_id bid) (blocks (article doc)) = int i"
    unfolding i_def by simp_all
  have rem: "splice (blocks (article doc)) (findIndex (has_id bid) (blocks (article doc))) 1 []
      = (others, [blocks (article doc) ! i])"
    unfolding ii others_def by (rule splice_remove_one[OF i])
  obtain k where k: "fst (splice others (splice_start newPosition (length others)) 0
          [blocks (article doc) ! i])
      = take k others @ [blocks (article doc) ! i] @ drop k others"
    using splice_insert_any by blast
  have m: "snd (moveBlock doc bid newPosition) =
     set_blocks doc (take k others @ [blocks (article doc) ! i] @ drop k others)"
    using True by (simp add: moveBlock_def Let_def rem k del: One_nat_def)
  from ids_distinct_remove[OF assms i]
  have "ids_distinct others"
    "\<forall>y\<in>set others. \<not> has_id (get_prop (JObj (blocks (article doc) ! i)) ''id'') y"
    unfolding others_def by simp_all
  from ids_distinct_insert[OF this] show ?thesis unfolding m by (simp add: blocks_set_blocks)
qed

lemma get_prop_spread:
  "k \<notin> fst ` set b \<Longrightarrow> get_prop (JObj (spread a b)) k = get_prop (JObj a) k"
proof -
  have "k \<notin> fst ` set b \<Longrightarrow>
      get_prop (JObj (fold (\<lambda>kv acc. assign (fst kv) (snd kv) acc) b a)) k = get_prop (JObj a) k"
  proof (induction b arbitrary: a)
    case Nil
    then show ?case by simp
  next
    case (Cons kv b)
    have "get_prop (JObj (fold (\<lambda>kv acc. assign (fst kv) (snd kv) acc) b (assign (fst kv) (snd kv) a))) k
        = get_prop (JObj (assign (fst kv) (snd kv) a)) k"
      using Cons.prems by (intro Cons.IH) auto
    also have "\<dots> = get_prop (JObj a) k"
      using Cons.prems by (simp only: get_prop_assign) auto
    finally show ?case by simp
  qed
  then show "k \<notin> fst ` set b \<Longrightarrow> get_prop (JObj (spread a b)) k = get_prop (JObj a) k"
    unfolding spread_def .
qed

lemma ids_distinct_replace:
  assumes d: "ids_distinct xs" and i: "i < length xs"
    and same: "get_prop (JObj x) ''id'' = get_prop (JObj (xs ! i)) ''id''"
  shows "ids_distinct (xs[i := x])"
proof -
  define others where "others = take i xs @ drop (Suc i) xs"
  have t: "take i others = take i xs" "drop i others = drop (Suc i) xs"
    using i by (simp_all add: others_def min_def)
  from ids_distinct_remove[OF d i]
  have "ids_distinct others" "\<forall>y\<in>set others. \<not> has_id (get_prop (JObj x) ''id'') y"
    unfolding others_def same by simp_all
  from ids_distinct_insert[OF this, of i] have "ids_distinct (take i xs @ [x] @ drop (Suc i) xs)"
    unfolding t .
  then show ?thesis using i by (simp add: upd_conv_take_nth_drop)
qed

lemma updateBlock_ids_distinct:
  assumes d: "ids_distinct (blocks (article doc))" and keep: "''id'' \<notin> fst ` set updates"
  shows "ids_distinct (blocks (article (snd (updateBlock doc bid updates))))"
proof (cases "findIndex (has_id bid) (blocks (article doc)) = - 1")
  case True
  then show ?thesis using d by (simp add: updateBlock_def)
next
  case False
  define i where "i = nat (findIndex (has_id bid) (blocks (article doc)))"
  define updatedBlock where "updatedBlock = spread (blocks (article doc) ! i) updates"
  from findIndex_some[OF False] have i: "i < length (blocks (article doc))"
    unfolding i_def by simp
  show ?thesis
  proof (cases "Block (JObj updatedBlock)")
    case (Inl e)
    then show ?thesis using False d
      by (simp add: updateBlock_def Let_def i_def[symmetric] updatedBlock_def[symmetric])
  next
    case (Inr block)
    from Block_fixpoint[OF Inr] have tj: "toJSON block = block"
      and gid: "get_prop (JObj block) ''id'' = get_prop (JObj updatedBlock) ''id''" by simp_all
    have "get_prop (JObj block) ''id'' = get_prop (JObj (blocks (article doc) ! i)) ''id''"
      unfolding gid updatedBlock_def by (rule get_prop_spread[OF keep])
    from ids_distinct_replace[OF d i this]
    show ?thesis using False Inr
      by (simp add: updateBlock_def Let_def i_def[symmetric] updatedBlock_def[symmetric] tj
          blocks_set_blocks)
  qed
qed

text \<open>
  Claim C1: every mutating operation keeps the ids of the stored blocks pairwise distinct.
  \<open>addBlock\<close>, \<open>insertBlock\<close>, \<open>removeBlock\<close> and \<open>moveBlock\<close> do (the four lemmas
  above), and so does \<open>updateBlock\<close> when the updates carry no \<open>id\<close>. With an \<open>id\<close> among the
  updates, \<open>updateBlock\<close> stores the merged block without looking for that id among the other
  blocks, as \<open>addBlock\<close> and \<open>insertBlock\<close> do: in the document of the blocks \<open>a\<close>, \<open>b\<close>, \<open>c\<close>,
  \<open>updateBlock('a', {id: 'b'})\<close> returns normally and leaves two blocks with the id \<open>b\<close>.
\<close>

theorem updateBlock_duplicates_id:
  "ids_distinct (blocks (article ex3)) \<and>
   updateBlock ex3 (JStr ''a'') [(''id'', JStr ''b'')] =
     (Inr [(''id'', JStr ''b''), (''type'', JStr ''text''), (''content'', JStr ''x'')],
      set_blocks ex3
        [[(''id'', JStr ''b''), (''type'', JStr ''text''), (''content'', JStr ''x'')],
         [(''id'', JStr ''b''), (''type'', JStr ''text''), (''content'', JStr ''y'')],
         [(''id'', JStr ''c''), (''type'', JStr ''text''), (''content'', JStr ''z'')]]) \<and>
   \<not> ids_distinct (blocks (article (snd (updateBlock ex3 (JStr ''a'') [(''id'', JStr ''b'')]))))"
  by (simp add: ex3_def updateBlock_def has_id_def spread_def assign_def Block_def toJSON_def
      set_blocks_def try_bind_def js_or_def ALLOWED_TYPES_def TYPE_REQUIREMENTS_def
      requiredProps_def this_undefined_def INHERITED_def Let_def)

section \<open>Serialization round trip\<close>

lemma spread_distinct: "distinct (map fst (a @ b)) \<Longrightarrow> spread a b = a @ b"
proof -
  have "distinct (map fst (a @ b)) \<Longrightarrow>
      fold (\<lambda>kv acc. assign (fst kv) (snd kv) acc) b a = a @ b"
  proof (induction b arbitrary: a)
    case Nil
    then show ?case by simp
  next
    case (Cons kv b)
    have absent: "fst kv \<notin> fst ` set a" using Cons.prems by auto
    have "fold (\<lambda>kv acc. assign (fst kv) (snd kv) acc) b (a @ [kv]) = (a @ [kv]) @ b"
      using Cons.prems by (intro Cons.IH) auto
    then show ?case using assign_absent[OF absent, of "snd kv"] by simp
  qed
  then show "distinct (map fst (a @ b)) \<Longrightarrow> spread a b = a @ b"
    unfolding spread_def .
qed

lemma concat_map_singleton:
  "(\<And>x. x \<in> set xs \<Longrightarrow> f x = [g x]) \<Longrightarrow> concat (map f xs) = map g xs"
  by (induction xs) simp_all

lemma JSON_roundtrip:
  "json_value v \<Longrightarrow> JSON_stringify v \<noteq> None \<and> JSON_parse (the (JSON_stringify v)) = v"
proof (induction v)
  case (JNum x)
  then show ?case by (cases x) auto
next
  case (JArr xs)
  have each: "JSON_parse (case JSON_stringify x of None \<Rightarrow> JsonNull | Some j \<Rightarrow> j) = x"
    if "x \<in> set xs" for x
  proof -
    from JArr.prems that have "json_value x" by (simp add: list_all_iff)
    from JArr.IH[OF that this] show ?thesis by auto
  qed
  then show ?case by (simp add: comp_def map_idI)
next
  case (JObj kvs)
  have jv: "json_value (snd kv)" if "kv \<in> set kvs" for kv
    using JObj.prems that by (simp add: list_all_iff)
  have ih: "JSON_stringify (snd kv) \<noteq> None \<and> JSON_parse (the (JSON_stringify (snd kv))) = snd kv"
    if "kv \<in> set kvs" for kv
    using JObj.IH[OF that _ jv[OF that]] by (cases kv) simp
  have members: "concat (map (\<lambda>kv. case JSON_stringify (snd kv) of
                             None \<Rightarrow> []
                           | Some j \<Rightarrow> [(fst kv, j)]) kvs)
      = map (\<lambda>kv. (fst kv, the (JSON_stringify (snd kv)))) kvs"
  proof (rule concat_map_singleton)
    fix kv assume "kv \<in> set kvs"
    from ih[OF this] obtain j where "JSON_stringify (snd kv) = Some j" by auto
    then show "(case JSON_stringify (snd kv) of None \<Rightarrow> [] | Some j \<Rightarrow> [(fst kv, j)])
        = [(fst kv, the (JSON_stringify (snd kv)))]" by simp
  qed
  have parsed: "map (\<lambda>kj. (fst kj, JSON_parse (snd kj)))
        (map (\<lambda>kv. (fst kv, the (JSON_stringify (snd kv)))) kvs) = kvs"
    using ih by (simp add: comp_def map_idI)
  have "distinct (map fst ([] @ kvs))" using JObj.prems by simp
  from spread_distinct[OF this] have sp: "spread [] kvs = kvs" by simp
  have s: "JSON_stringify (JObj kvs)
      = Some (JsonObject (map (\<lambda>kv. (fst kv, the (JSON_stringify (snd kv)))) kvs))"
    by (simp only: JSON_stringify.simps members)
  have p: "JSON_parse (JsonObject (map (\<lambda>kv. (fst kv, the (JSON_stringify (snd kv)))) kvs))
      = JObj kvs"
    by (simp only: JSON_parse.simps parsed sp)
  show ?case by (simp only: s option.sel p) simp
qed simp_all

section \<open>Stored blocks are validated blocks\<close>

lemma splice_subset:
  "set (fst (splice xs start deleteCount items)) \<subseteq> set xs \<union> set items"
  "set (snd (splice xs start deleteCount items)) \<subseteq> set xs"
proof -
  have t: "set (take n xs) \<subseteq> set xs" "set (drop n xs) \<subseteq> set xs" for n
    by (simp_all add: set_take_subset set_drop_subset)
  show "set (fst (splice xs start deleteCount items)) \<subseteq> set xs \<union> set items"
    unfolding splice_def Let_def using t by (auto dest: in_set_takeD in_set_dropD)
  show "set (snd (splice xs start deleteCount items)) \<subseteq> set xs"
    unfolding splice_def Let_def by (auto dest: in_set_takeD in_set_dropD)
qed

lemma Block_validated: "Block data = Inr block \<Longrightarrow> validated (toJSON block)"
  using Block_fixpoint[of data block] by (simp add: validated_def)

lemma addBlock_validated:
  assumes "\<forall>b\<in>set (blocks (article doc)). validated b"
  shows "\<forall>b\<in>set (blocks (article (snd (addBlock doc blockData)))). validated b"
proof (cases "Block blockData")
  case (Inl e)
  then show ?thesis using assms by (simp add: addBlock_def)
next
  case (Inr block)
  then show ?thesis using assms Block_validated[OF Inr]
    by (auto simp: addBlock_def blocks_set_blocks)
qed

lemma insertBlock_validated:
  assumes "\<forall>b\<in>set (blocks (article doc)). validated b"
  shows "\<forall>b\<in>set (blocks (article (snd (insertBlock doc blockData position)))). validated b"
proof (cases "Block blockData")
  case (Inl e)
  then show ?thesis using assms by (simp add: insertBlock_def)
next
  case (Inr block)
  have "set (fst (splice (blocks (article doc))
          (splice_start position (length (blocks (article doc)))) 0 [toJSON block]))
      \<subseteq> set (blocks (article doc)) \<union> {toJSON block}"
    using splice_subset(1)[of "blocks (article doc)" _ 0 "[toJSON block]"] by simp
  then show ?thesis using assms Block_validated[OF Inr] Inr
    by (auto simp: insertBlock_def blocks_set_blocks)
qed

lemma updateBlock_validated:
  assumes "\<forall>b\<in>set (blocks (article doc)). validated b"
  shows "\<forall>b\<in>set (blocks (article (snd (updateBlock doc bid updates)))). validated b"
proof (cases "findIndex (has_id bid) (blocks (article doc)) = - 1")
  case True
  then show ?thesis using assms by (simp add: updateBlock_def)
next
  case False
  define i where "i = nat (findIndex (has_id bid) (blocks (article doc)))"
  define updatedBlock where "updatedBlock = spread (blocks (article doc) ! i) updates"
  show ?thesis
  proof (cases "Block (JObj updatedBlock)")
    case (Inl e)
    then show ?thesis using False assms
      by (simp add: updateBlock_def Let_def i_def[symmetric] updatedBlock_def[symmetric])
  next
    case (Inr block)
    have "set ((blocks (article doc))[i := toJSON block])
        \<subseteq> insert (toJSON block) (set (blocks (article doc)))"
      by (rule set_update_subset_insert)
    then have "\<forall>b\<in>set ((blocks (article doc))[i := toJSON block]). validated b"
      using assms Block_validated[OF Inr] by auto
    then show ?thesis using False Inr
      by (simp add: updateBlock_def Let_def i_def[symmetric] updatedBlock_def[symmetric]
          blocks_set_blocks)
  qed
qed

lemma removeBlock_validated:
  assumes "\<forall>b\<in>set (blocks (article doc)). validated b"
  shows "\<forall>b\<in>set (blocks (article (snd (removeBlock doc bid)))). validated b"
proof -
  have "set (fst (splice (blocks (article doc)) (findIndex (has_id bid) (blocks (article doc)))
      1 [])) \<subseteq> set (blocks (article doc))"
    using splice_subset(1)[of "blocks (article doc)" _ 1 "[]"] by simp
  then show ?thesis using assms
    by (auto simp: removeBlock_def Let_def blocks_set_blocks simp del: One_nat_def)
qed

lemma moveBlock_validated:
  assumes "\<forall>b\<in>set (blocks (article doc)). validated b"
  shows "\<forall>b\<in>set (blocks (article (snd (moveBlock doc bid newPosition)))). validated b"
proof -
  define removed where "removed =
    splice (blocks (article doc)) (findIndex (has_id bid) (blocks (article doc))) 1 []"
  have r: "set (fst removed) \<subseteq> set (blocks (article doc))"
    "set (snd removed) \<subseteq> set (blocks (article doc))"
    unfolding removed_def
    using splice_subset[of "blocks (article doc)" _ 1 "[]"] by simp_all
  have "set (fst (splice (fst removed) (splice_start newPosition (length (fst removed))) 0
      (snd removed))) \<subseteq> set (blocks (article doc))"
    using splice_subset(1)[of "fst removed" _ 0 "snd removed"] r by blast
  then show ?thesis using assms
    by (auto simp: moveBlock_def Let_def blocks_set_blocks removed_def[symmetric]
        simp del: One_nat_def)
qed

lemma addBlocks_validated:
  "addBlocks doc xs = Inr doc' \<Longrightarrow> \<forall>b\<in>set (blocks (article doc)). validated b
     \<Longrightarrow> \<forall>b\<in>set (blocks (article doc')). validated b"
proof (induction xs arbitrary: doc)
  case Nil
  then show ?case by simp
next
  case (Cons x xs)
  obtain r d where a: "addBlock doc x = (r, d)" by (cases "addBlock doc x")
  with Cons.prems(1) obtain b where "r = Inr b" and rest: "addBlocks d xs = Inr doc'"
    by (cases r) auto
  have "\<forall>b\<in>set (blocks (article d)). validated b"
    using addBlock_validated[OF Cons.prems(2), of x] a by simp
  from Cons.IH[OF rest this] show ?case .
qed

lemma built_validated: "built doc \<Longrightarrow> \<forall>b\<in>set (blocks (article doc)). validated b"
proof (induction rule: built.induct)
  case (constructed options doc)
  then show ?case
    by (auto simp: new_BlockDocDocument_def Let_def split: if_splits dest!: addBlocks_validated)
next
  case (added doc blockData r doc')
  then show ?case using addBlock_validated[of doc blockData] by simp
next
  case (inserted doc blockData position r doc')
  then show ?case using insertBlock_validated[of doc blockData position] by simp
next
  case (updated doc bid updates r doc')
  then show ?case using updateBlock_validated[of doc bid updates] by simp
next
  case (removed doc bid r' doc')
  then show ?case using removeBlock_validated[of doc bid] by simp
next
  case (moved doc bid newPosition r' doc')
  then show ?case using moveBlock_validated[of doc bid newPosition] by simp
qed

section \<open>Round trip of a document\<close>

lemma addBlocks_reload:
  assumes "ids_distinct (blocks (article doc) @ bs)" and "\<forall>b\<in>set bs. validated b"
  shows "addBlocks doc (map JObj bs) = Inr (set_blocks doc (blocks (article doc) @ bs))"
  using assms
proof (induction bs arbitrary: doc)
  case Nil
  then show ?case by (simp add: set_blocks_def)
next
  case (Cons b bs)
  let ?acc = "blocks (article doc)"
  from Cons.prems(1) have "\<forall>x\<in>set ?acc. \<not> has_id (get_prop (JObj x) ''id'') b"
    unfolding ids_distinct_append by simp
  then have fresh: "\<not> truthy (getBlock doc (get_prop (JObj b) ''id''))"
    unfolding getBlock_truthy using has_id_sym by blast
  from Cons.prems(2) have B: "Block (JObj b) = Inr b" and tj: "toJSON b = b"
    by (simp_all add: validated_def)
  have step: "addBlock doc (JObj b) = (Inr b, set_blocks doc (?acc @ [b]))"
    using fresh B tj by (simp add: addBlock_def)
  have d: "ids_distinct (blocks (article (set_blocks doc (?acc @ [b]))) @ bs)"
    using Cons.prems(1) by (simp add: blocks_set_blocks)
  have v: "\<forall>b\<in>set bs. validated b" using Cons.prems(2) by simp
  from Cons.IH[OF d v] show ?case
    using step by (simp add: blocks_set_blocks set_blocks_def)
qed

lemma article_roundtrip:
  assumes t: "t = JUndefined \<or> json_value t" and m: "json_value m" and B: "json_value B"
  shows "\<exists>ja a. JSON_stringify (JObj [(''title'', t), (''metadata'', m), (''blocks'', B)]) = Some ja
      \<and> JSON_parse ja = JObj a
      \<and> get_prop (JObj a) ''title'' = t \<and> get_prop (JObj a) ''metadata'' = m
      \<and> get_prop (JObj a) ''blocks'' = B"
proof -
  from JSON_roundtrip[OF m] obtain jm where jm: "JSON_stringify m = Some jm" "JSON_parse jm = m"
    by auto
  from JSON_roundtrip[OF B] obtain jb where jb: "JSON_stringify B = Some jb" "JSON_parse jb = B"
    by auto
  from t show ?thesis
  proof
    assume u: "t = JUndefined"
    have "spread [] [(''metadata'', m), (''blocks'', B)] = [(''metadata'', m), (''blocks'', B)]"
      by (rule spread_distinct[of "[]", simplified]) simp
    then show ?thesis using u jm jb by simp
  next
    assume jt: "json_value t"
    from JSON_roundtrip[OF jt] obtain j where j: "JSON_stringify t = Some j" "JSON_parse j = t"
      by auto
    have "spread [] [(''title'', t), (''metadata'', m), (''blocks'', B)]
        = [(''title'', t), (''metadata'', m), (''blocks'', B)]"
      by (rule spread_distinct[of "[]", simplified]) simp
    then show ?thesis using j jm jb by simp
  qed
qed

lemma reload_identity:
  assumes v: "\<forall>b\<in>set (blocks (article doc)). validated b"
    and t: "title (article doc) = JUndefined \<or> json_value (title (article doc))"
    and m: "json_value (metadata (article doc))" "truthy (metadata (article doc))"
    and b: "\<forall>b\<in>set (blocks (article doc)). json_value (JObj b)"
    and d: "ids_distinct (blocks (article doc))"
  shows "reload doc = Inr doc"
proof -
  define B where "B = JArr (map JObj (blocks (article doc)))"
  have jB: "json_value B" using b by (simp add: B_def list_all_iff)
  from article_roundtrip[OF t m(1) jB] obtain ja a where
    ja: "JSON_stringify (JObj [(''title'', title (article doc)),
          (''metadata'', metadata (article doc)), (''blocks'', B)]) = Some ja"
    and pa: "JSON_parse ja = JObj a"
    and g: "get_prop (JObj a) ''title'' = title (article doc)"
      "get_prop (JObj a) ''metadata'' = metadata (article doc)"
      "get_prop (JObj a) ''blocks'' = B"
    by blast
  have str: "document_toString doc = Some (JsonObject [(''article'', ja)])"
    using ja by (simp add: document_toString_def document_toJSON_def article_value_def B_def)
  have sp: "spread [] [(''article'', JObj a)] = [(''article'', JObj a)]"
    by (rule spread_distinct[of "[]", simplified]) simp
  have parsed: "JSON_parse (JsonObject [(''article'', ja)]) = JObj [(''article'', JObj a)]"
    using pa sp by simp
  define this0 where "this0 = \<lparr>article = \<lparr>title = title (article doc),
      metadata = metadata (article doc), blocks = []\<rparr>\<rparr>"
  have d0: "ids_distinct (blocks (article this0) @ blocks (article doc))"
    using d by (simp add: this0_def)
  have ab: "addBlocks this0 (map JObj (blocks (article doc)))
      = Inr (set_blocks this0 (blocks (article this0) @ blocks (article doc)))"
    using addBlocks_reload[OF d0 v] .
  have same: "set_blocks this0 (blocks (article this0) @ blocks (article doc)) = doc"
    by (simp add: this0_def set_blocks_def)
  have mu: "metadata (article doc) \<noteq> JUndefined" using m(2) by auto
  have new: "new_BlockDocDocument
      (JObj [(''title'', title (article doc)),
             (''metadata'', js_or (metadata (article doc)) (JObj [])),
             (''blocks'', js_or B (JArr []))]) = Inr doc"
    using m(2) mu ab same
    by (simp add: new_BlockDocDocument_def js_or_def default_to_def Let_def B_def
        this0_def[symmetric])
  have "fromJSON (FromText (JsonObject [(''article'', ja)])) = Inr doc"
    unfolding fromJSON_def Let_def json_input.case parsed
    using new g by (simp del: get_prop.simps add: get_prop.simps(1)[of "[(''article'', JObj a)]"])
  then show ?thesis unfolding reload_def str by simp
qed

lemma ex3_constructed:
  "new_BlockDocDocument
     (JObj [(''title'', JStr ''T''),
            (''blocks'', JArr [JObj [(''id'', JStr ''a''), (''type'', JStr ''text''), (''content'', JStr ''x'')],
                               JObj [(''id'', JStr ''b''), (''type'', JStr ''text''), (''content'', JStr ''y'')],
                               JObj [(''id'', JStr ''c''), (''type'', JStr ''text''), (''content'', JStr ''z'')]])])
     = Inr ex3"
  by (simp add: new_BlockDocDocument_def default_to_def Let_def addBlock_def getBlock_def
      has_id_def js_or_def Block_def try_bind_def ALLOWED_TYPES_def TYPE_REQUIREMENTS_def
      requiredProps_def this_undefined_def INHERITED_def assign_def toJSON_def set_blocks_def
      ex3_def)

lemma nan_doc_constructed:
  "new_BlockDocDocument
     (JObj [(''title'', JStr ''T''),
            (''metadata'', JObj [(''readingTime'', JNum NaN)]),
            (''blocks'', JArr [JObj [(''id'', JStr ''a''), (''type'', JStr ''text''), (''content'', JStr ''x'')]])])
     = Inr nan_doc"
  by (simp add: new_BlockDocDocument_def default_to_def Let_def addBlock_def getBlock_def
      has_id_def js_or_def Block_def try_bind_def ALLOWED_TYPES_def TYPE_REQUIREMENTS_def
      requiredProps_def this_undefined_def INHERITED_def assign_def toJSON_def set_blocks_def
      nan_doc_def)

lemma built_examples: "built ex3" "built nan_doc"
  by (rule constructed[OF ex3_constructed], rule constructed[OF nan_doc_constructed])

lemma reload_duplicate_id:
  "reload (snd (updateBlock ex3 (JStr ''a'') [(''id'', JStr ''b'')])) = Inl (DuplicateIdError ''b'')"
  by (simp add: ex3_def updateBlock_def has_id_def spread_def assign_def Block_def toJSON_def
      set_blocks_def try_bind_def js_or_def ALLOWED_TYPES_def TYPE_REQUIREMENTS_def
      requiredProps_def this_undefined_def INHERITED_def Let_def
      reload_def document_toString_def document_toJSON_def article_value_def fromJSON_def
      new_BlockDocDocument_def default_to_def addBlock_def getBlock_def)

text \<open>
  Claim C3, as amended. Take a document that the class has built, whose title is
  \<open>undefined\<close> or a value that JSON carries unchanged, whose metadata is a truthy value of
  that kind, whose stored blocks are such values, and whose block ids are pairwise
  distinct. Then \<open>Document.fromJSON(doc.toString())\<close> succeeds and gives the same document
  again, every block having passed through \<open>addBlock\<close> and the constructor of \<open>Block\<close>; so
  its \<open>toJSON()\<close> equals that of the document. Nothing is said of a document in which two
  blocks carry the same id.
\<close>

theorem reload_roundtrip:
  assumes "built doc"
    and "title (article doc) = JUndefined \<or> json_value (title (article doc))"
    and "json_value (metadata (article doc))" and "truthy (metadata (article doc))"
    and "\<forall>b\<in>set (blocks (article doc)). json_value (JObj b)"
    and "ids_distinct (blocks (article doc))"
  shows "reload doc = Inr doc \<and>
    (\<exists>doc'. reload doc = Inr doc' \<and> document_toJSON doc' = document_toJSON doc)"
  using reload_identity[OF built_validated[OF assms(1)] assms(2-6)] by simp

theorem reload_roundtrip_witness:
  "built ex3 \<and> ids_distinct (blocks (article ex3)) \<and>
   list_all (\<lambda>b. json_value (JObj b)) (blocks (article ex3)) \<and>
   json_value (title (article ex3)) \<and> json_value (metadata (article ex3)) \<and>
   reload ex3 = Inr ex3 \<and>
   (\<exists>doc'. reload ex3 = Inr doc' \<and> document_toJSON doc' = document_toJSON ex3)"
  using reload_roundtrip[of ex3] built_examples(1)
  by (simp add: ex3_def has_id_def)

text \<open>
  Claim C3 as stated fails: JSON has no \<open>NaN\<close>. The document built from the title \<open>T\<close>, the
  metadata \<open>{readingTime: NaN}\<close> and one text block is written with \<open>null\<close> in the place of
  \<open>NaN\<close>, and what \<open>fromJSON\<close> builds from that text holds \<open>null\<close>.
\<close>

theorem reload_loses_NaN:
  "built nan_doc \<and> reload nan_doc = Inr null_doc \<and>
   document_toJSON null_doc \<noteq> document_toJSON nan_doc"
proof -
  have "reload nan_doc = Inr null_doc"
    by (simp add: nan_doc_def null_doc_def
      reload_def document_toString_def document_toJSON_def article_value_def fromJSON_def
      spread_def new_BlockDocDocument_def default_to_def Let_def addBlock_def getBlock_def
      has_id_def js_or_def Block_def try_bind_def ALLOWED_TYPES_def TYPE_REQUIREMENTS_def
      requiredProps_def this_undefined_def INHERITED_def assign_def toJSON_def set_blocks_def)
  moreover have "document_toJSON null_doc \<noteq> document_toJSON nan_doc"
    by (simp add: nan_doc_def null_doc_def document_toJSON_def article_value_def)
  ultimately show ?thesis using built_examples(2) by simp
qed

end
